theory Spec2Isabelle
  imports Main "HOL-Library.FSet" "HOL-Library.Sublist"
begin

section \<open>The chat server of \<^verbatim>\<open>src/chat/main.go\<close>\<close>

text \<open>
  The embedding follows \<^verbatim>\<open>src/chat/main.go\<close> function by function. Go strings are
  byte sequences, so they are \<^typ>\<open>string\<close> here (a list of 8-bit characters) and
  \<^verbatim>\<open>len\<close> is \<^const>\<open>length\<close>. The model is sequential: one handler runs at a time, and the
  two mutexes, which only exclude concurrent access, have no counterpart.
\<close>

subsection \<open>Constants\<close>

definition historyLimit :: nat where
  "historyLimit = 20"

definition maxMsgLen :: nat where
  "maxMsgLen = 1024"

definition bufferSize :: nat where
  "bufferSize = 5"

definition pageHead :: string where
  \<open>pageHead = concat (map (\<lambda>l. l @ [CHR 0x0A])
     [''<!doctype html>'',
      ''<html>'',
      ''<head>'',
      ''<title>noscript timeline</title>'',
      ''<meta name="viewport" content="width=device-width, initial-scale=1">'',
      ''<link rel="stylesheet" type="text/css" href="/static/style.css">'',
      ''</head>'',
      ''<body>'',
      ''<header>'',
      CHR 0x09 # ''<div id="count">Being seen by <span id="nc"></span> connection(s)</div>'',
      CHR 0x09 # ''<form method="post">'',
      CHR 0x09 # CHR 0x09 # ''<textarea name="msg" placeholder="Start typing..." autofocus></textarea>'',
      CHR 0x09 # CHR 0x09 # ''<div><button>Post</button></div>'',
      CHR 0x09 # ''</form>'',
      ''</header>'',
      ''<main>''])\<close>

subsection \<open>Library functions the program calls\<close>

text \<open>
  \<^verbatim>\<open>fmt.Sprintf\<close>, restricted to the two verbs the program uses: \<^verbatim>\<open>%d\<close> with an integer
  argument (a length, so never negative) and \<^verbatim>\<open>%s\<close> with a string argument. An
  argument is copied into the output and not scanned again.
\<close>

datatype arg = ArgInt nat | ArgStr string

definition digit :: "nat \<Rightarrow> char" where
  "digit d = ''0123456789'' ! d"

fun decimal :: "nat \<Rightarrow> string" where
  "decimal n = (if n < 10 then [digit n] else decimal (n div 10) @ [digit (n mod 10)])"

declare decimal.simps [simp del]

fun Sprintf :: "string \<Rightarrow> arg list \<Rightarrow> string" where
  "Sprintf [] args = []"
| "Sprintf [c] args = [c]"
| "Sprintf (c # v # rest) args =
     (if c = CHR ''%'' then
        (case args of
           ArgInt n # args' \<Rightarrow>
             if v = CHR ''d'' then decimal n @ Sprintf rest args' else c # Sprintf (v # rest) args
         | ArgStr s # args' \<Rightarrow>
             if v = CHR ''s'' then s @ Sprintf rest args' else c # Sprintf (v # rest) args
         | [] \<Rightarrow> c # Sprintf (v # rest) args)
      else c # Sprintf (v # rest) args)"

text \<open>
  \<^verbatim>\<open>template.HTMLEscapeString\<close>: the five characters \<^verbatim>\<open>" ' & < >\<close> become character
  references and a NUL byte becomes U+FFFD (three bytes in UTF-8); every other byte is
  kept.
\<close>

definition escape_byte :: "char \<Rightarrow> string" where
  \<open>escape_byte c =
     (if c = CHR 0x00 then [CHR 0xEF, CHR 0xBF, CHR 0xBD]
      else if c = CHR 0x22 then ''&#34;''
      else if c = CHR 0x27 then ''&#39;''
      else if c = CHR ''&'' then ''&amp;''
      else if c = CHR ''<'' then ''&lt;''
      else if c = CHR ''>'' then ''&gt;''
      else [c])\<close>

definition HTMLEscapeString :: "string \<Rightarrow> string" where
  "HTMLEscapeString s = concat (map escape_byte s)"

text \<open>
  \<^verbatim>\<open>strings.TrimSpace\<close> removes leading and trailing white space as Unicode defines it.
  On the bytes of a string that is every leading and trailing occurrence of the UTF-8
  encoding of a white-space code point: the six ASCII ones, U+0085, U+00A0, U+1680,
  U+2000 to U+200A, U+2028, U+2029, U+202F, U+205F and U+3000.
\<close>

definition space_encodings :: "string list" where
  "space_encodings =
     [[CHR 0x09], [CHR 0x0A], [CHR 0x0B], [CHR 0x0C], [CHR 0x0D], [CHR 0x20],
      [CHR 0xC2, CHR 0x85], [CHR 0xC2, CHR 0xA0],
      [CHR 0xE1, CHR 0x9A, CHR 0x80],
      [CHR 0xE2, CHR 0x80, CHR 0x80], [CHR 0xE2, CHR 0x80, CHR 0x81],
      [CHR 0xE2, CHR 0x80, CHR 0x82], [CHR 0xE2, CHR 0x80, CHR 0x83],
      [CHR 0xE2, CHR 0x80, CHR 0x84], [CHR 0xE2, CHR 0x80, CHR 0x85],
      [CHR 0xE2, CHR 0x80, CHR 0x86], [CHR 0xE2, CHR 0x80, CHR 0x87],
      [CHR 0xE2, CHR 0x80, CHR 0x88], [CHR 0xE2, CHR 0x80, CHR 0x89],
      [CHR 0xE2, CHR 0x80, CHR 0x8A],
      [CHR 0xE2, CHR 0x80, CHR 0xA8], [CHR 0xE2, CHR 0x80, CHR 0xA9],
      [CHR 0xE2, CHR 0x80, CHR 0xAF],
      [CHR 0xE2, CHR 0x81, CHR 0x9F],
      [CHR 0xE3, CHR 0x80, CHR 0x80]]"

text \<open>The length of the white-space code point a string starts with, 0 if there is none.\<close>

definition leading_space :: "string list \<Rightarrow> string \<Rightarrow> nat" where
  "leading_space encs s = (case find (\<lambda>e. prefix e s) encs of None \<Rightarrow> 0 | Some e \<Rightarrow> length e)"

function trim_left :: "string list \<Rightarrow> string \<Rightarrow> string" where
  "trim_left encs s =
     (if leading_space encs s = 0 then s else trim_left encs (drop (leading_space encs s) s))"
  by pat_completeness auto
termination
proof (relation "measure (\<lambda>(encs, s). length s)")
  show "wf (measure (\<lambda>(encs :: string list, s :: string). length s))"
    by simp
next
  fix encs :: "string list" and s :: string
  assume pos: "leading_space encs s \<noteq> 0"
  then obtain e where e: "find (\<lambda>e. prefix e s) encs = Some e" "leading_space encs s = length e"
    by (auto simp: leading_space_def split: option.splits)
  from e(1) have "prefix e s"
    by (auto simp: find_Some_iff)
  then have "length e \<le> length s"
    by (rule prefix_length_le)
  moreover from pos e(2) have "0 < length e"
    by simp
  ultimately have "length s - length e < length s"
    by arith
  with e(2) show "((encs, drop (leading_space encs s) s), (encs, s)) \<in> measure (\<lambda>(encs, s). length s)"
    by simp
qed

declare trim_left.simps [simp del]

definition trim_right :: "string list \<Rightarrow> string \<Rightarrow> string" where
  "trim_right encs s = rev (trim_left (map rev encs) (rev s))"

definition TrimSpace :: "string \<Rightarrow> string" where
  "TrimSpace s = trim_right space_encodings (trim_left space_encodings s)"

subsection \<open>Data\<close>

record Update =
  timestamp :: string
  message :: string

text \<open>
  A buffered channel of byte slices: its capacity and the payloads waiting in it, oldest
  first. Channels are heap objects; the program holds references to them.
\<close>

record chan =
  cap :: nat
  buf :: "string list"

text \<open>
  The \<^verbatim>\<open>App\<close> struct: \<open>chans\<close> is the key set of the map \<^verbatim>\<open>map[chan []byte]struct{}\<close> and
  \<open>history\<close> the slice of updates. With it travel the channel objects the references point
  to (\<open>heap\<close>) and the next unused reference (\<open>nxt\<close>), which \<^verbatim>\<open>make\<close> hands out.
\<close>

record App =
  chans :: "nat fset"
  history :: "Update list"
  heap :: "nat \<Rightarrow> chan"
  nxt :: nat

definition NewApp :: App where
  "NewApp = \<lparr>chans = {||}, history = [], heap = (\<lambda>_. \<lparr>cap = 0, buf = []\<rparr>), nxt = 0\<rparr>"

definition make_chan :: "nat \<Rightarrow> App \<Rightarrow> nat \<times> App" where
  "make_chan n a = (nxt a, a\<lparr>heap := (heap a)(nxt a := \<lparr>cap = n, buf = []\<rparr>), nxt := Suc (nxt a)\<rparr>)"

subsection \<open>History and registry\<close>

definition append_update :: "Update \<Rightarrow> App \<Rightarrow> App" where
  "append_update update a =
     (let h = history a @ [update]
      in if length h > historyLimit then a\<lparr>history := drop (length h - historyLimit) h\<rparr>
         else a\<lparr>history := h\<rparr>)"

definition addChan :: "nat \<Rightarrow> App \<Rightarrow> App" where
  "addChan ch a = a\<lparr>chans := finsert ch (chans a)\<rparr>"

definition removeChan :: "nat \<Rightarrow> App \<Rightarrow> App" where
  "removeChan ch a = a\<lparr>chans := chans a |-| {|ch|}\<rparr>"

subsection \<open>Broadcasting\<close>

text \<open>
  The \<^verbatim>\<open>select\<close> with a \<^verbatim>\<open>default\<close> branch: the payload is enqueued when the buffer has
  room and the statement falls through otherwise. Either way it returns at once.
\<close>

definition offer :: "string \<Rightarrow> chan \<Rightarrow> chan" where
  "offer data q = (if length (buf q) < cap q then q\<lparr>buf := buf q @ [data]\<rparr> else q)"

definition try_send :: "nat \<Rightarrow> string \<Rightarrow> App \<Rightarrow> App" where
  "try_send ch data a = a\<lparr>heap := (heap a)(ch := offer data (heap a ch))\<rparr>"

text \<open>
  \<^verbatim>\<open>for ch := range a.chans\<close>, given the order in which the keys are visited. Go leaves
  that order open; \<open>range_send_any_order\<close> below shows that it does not matter, and the
  callers visit the keys in increasing order.
\<close>

fun range_send :: "nat list \<Rightarrow> string \<Rightarrow> App \<Rightarrow> App" where
  "range_send [] data a = a"
| "range_send (ch # chs) data a = range_send chs data (try_send ch data a)"

definition count_data :: "App \<Rightarrow> string" where
  \<open>count_data a = Sprintf ''<style>#nc::before{content:"%d"}</style>'' [ArgInt (fcard (chans a))]\<close>

definition sendCount :: "App \<Rightarrow> App" where
  "sendCount a =
     (let data = count_data a
      in range_send (sorted_list_of_fset (chans a)) data a)"

definition update_data :: "Update \<Rightarrow> string" where
  \<open>update_data update =
     Sprintf ''<div class="new"><p>%s</p><time>%s</time></div>''
       [ArgStr (message update), ArgStr (timestamp update)]\<close>

definition send :: "Update \<Rightarrow> App \<Rightarrow> App" where
  "send update a =
     (let a1 = append_update update a;
          data = update_data update
      in range_send (sorted_list_of_fset (chans a1)) data a1)"

subsection \<open>The response writer and the request\<close>

text \<open>
  \<^verbatim>\<open>http.ResponseWriter\<close> as the handlers see it. \<open>body\<close> holds the chunks written so
  far. Whether a write fails is up to the client, so it is an input: \<open>wr_ok k\<close> says whether
  the \<open>k\<close>-th call of \<^verbatim>\<open>Write\<close> succeeds. \<open>is_flusher\<close> is the outcome of the type assertion
  \<^verbatim>\<open>w.(http.Flusher)\<close>.
\<close>

record writer =
  hdr :: "string \<rightharpoonup> string"
  status :: "nat option"
  body :: "string list"
  flushes :: nat
  is_flusher :: bool
  wr_ok :: "nat \<Rightarrow> bool"
  wr_calls :: nat

definition Header_Set :: "string \<Rightarrow> string \<Rightarrow> writer \<Rightarrow> writer" where
  "Header_Set k v w = w\<lparr>hdr := (hdr w)(k \<mapsto> v)\<rparr>"

text \<open>The first status written wins; a write or a flush without one sends 200.\<close>

definition WriteHeader :: "nat \<Rightarrow> writer \<Rightarrow> writer" where
  "WriteHeader code w = (case status w of None \<Rightarrow> w\<lparr>status := Some code\<rparr> | Some _ \<Rightarrow> w)"

text \<open>\<^verbatim>\<open>w.Write(data)\<close>; the second component is \<^verbatim>\<open>err != nil\<close>.\<close>

definition Write :: "string \<Rightarrow> writer \<Rightarrow> writer \<times> bool" where
  "Write data w =
     (let w1 = (WriteHeader 200 w)\<lparr>wr_calls := Suc (wr_calls w)\<rparr>
      in if wr_ok w (wr_calls w) then (w1\<lparr>body := body w @ [data]\<rparr>, False) else (w1, True))"

definition Flush :: "writer \<Rightarrow> writer" where
  "Flush w = (WriteHeader 200 w)\<lparr>flushes := Suc (flushes w)\<rparr>"

text \<open>
  The request after \<^verbatim>\<open>r.ParseForm()\<close>: its method and the parsed form of its body.
  \<^verbatim>\<open>Get\<close> returns the first value of a key, or the empty string.
\<close>

record request =
  Method :: string
  PostForm :: "(string \<times> string list) list"

definition Get :: "(string \<times> string list) list \<Rightarrow> string \<Rightarrow> string" where
  "Get vs key = (case map_of vs key of Some (v # _) \<Rightarrow> v | _ \<Rightarrow> [])"

text \<open>
  \<^verbatim>\<open>http.Redirect\<close> for a path that needs no cleaning, as \<^verbatim>\<open>/\<close>: it sets the
  \<^verbatim>\<open>Location\<close> header and writes the status. Only a GET request without a content type
  also gets a short body; \<open>StatusText\<close> has the one entry the program uses.
\<close>

definition StatusText :: "nat \<Rightarrow> string" where
  "StatusText code = (if code = 302 then ''Found'' else [])"

definition Redirect :: "request \<Rightarrow> string \<Rightarrow> nat \<Rightarrow> writer \<Rightarrow> writer" where
  \<open>Redirect r url code w =
     (let hadCT = (hdr w ''Content-Type'' \<noteq> None);
          w1 = Header_Set ''Location'' url w;
          w2 = (if \<not> hadCT \<and> (Method r = ''GET'' \<or> Method r = ''HEAD'')
                then Header_Set ''Content-Type'' ''text/html; charset=utf-8'' w1 else w1);
          w3 = WriteHeader code w2
      in if \<not> hadCT \<and> Method r = ''GET''
         then fst (Write (''<a href="'' @ HTMLEscapeString url @ ''">'' @ StatusText code
                          @ ''</a>.'' @ [CHR 0x0A, CHR 0x0A]) w3)
         else w3)\<close>

text \<open>
  The result of \<^verbatim>\<open>time.Now().UTC()\<close>, an input of the model, by its calendar fields, and
  \<^verbatim>\<open>Format("2006-01-02 15:04:05")\<close>: year, month, day, hour, minute and second, zero-padded
  to 4, 2, 2, 2, 2 and 2 digits.
\<close>

record civil =
  year :: nat
  month :: nat
  day :: nat
  hour :: nat
  minute :: nat
  second :: nat

definition zero_pad :: "nat \<Rightarrow> nat \<Rightarrow> string" where
  "zero_pad w n = replicate (w - length (decimal n)) (CHR ''0'') @ decimal n"

definition Format :: "civil \<Rightarrow> string" where
  "Format t =
     zero_pad 4 (year t) @ ''-'' @ zero_pad 2 (month t) @ ''-'' @ zero_pad 2 (day t) @ '' ''
     @ zero_pad 2 (hour t) @ '':'' @ zero_pad 2 (minute t) @ '':'' @ zero_pad 2 (second t)"

subsection \<open>Replaying the history\<close>

definition history_data :: "Update \<Rightarrow> string" where
  \<open>history_data update =
     Sprintf ''<div><p>%s</p><time>%s</time></div>''
       [ArgStr (message update), ArgStr (timestamp update)]\<close>

fun sendHistory_loop :: "Update list \<Rightarrow> writer \<Rightarrow> writer \<times> bool" where
  "sendHistory_loop [] w = (w, False)"
| "sendHistory_loop (update # rest) w =
     (let msg = history_data update;
          (w1, err) = Write msg w
      in if err then (w1, True) else sendHistory_loop rest w1)"

definition sendHistory :: "writer \<Rightarrow> App \<Rightarrow> writer \<times> bool" where
  "sendHistory w a = sendHistory_loop (history a) w"

subsection \<open>Handlers\<close>

text \<open>
  A handler works on its response writer and on the application. The third component
  of its context records, in order, the calls it makes on either of them.
\<close>

datatype event =
    EvMake nat
  | EvAddChan nat
  | EvRemoveChan nat
  | EvWrite string bool
  | EvFlush
  | EvSendHistory bool
  | EvSendCount string
  | EvSend Update
  | EvRedirect string nat

record ctx =
  wr :: writer
  app :: App
  tr :: "event list"

datatype outcome = Running | Returned

definition do_make :: "nat \<Rightarrow> ctx \<Rightarrow> nat \<times> ctx" where
  "do_make n c = (let (ch, a) = make_chan n (app c) in (ch, c\<lparr>app := a, tr := tr c @ [EvMake ch]\<rparr>))"

definition do_addChan :: "nat \<Rightarrow> ctx \<Rightarrow> ctx" where
  "do_addChan ch c = c\<lparr>app := addChan ch (app c), tr := tr c @ [EvAddChan ch]\<rparr>"

definition do_removeChan :: "nat \<Rightarrow> ctx \<Rightarrow> ctx" where
  "do_removeChan ch c = c\<lparr>app := removeChan ch (app c), tr := tr c @ [EvRemoveChan ch]\<rparr>"

definition do_sendCount :: "ctx \<Rightarrow> ctx" where
  "do_sendCount c = c\<lparr>app := sendCount (app c), tr := tr c @ [EvSendCount (count_data (app c))]\<rparr>"

definition do_send :: "Update \<Rightarrow> ctx \<Rightarrow> ctx" where
  "do_send update c = c\<lparr>app := send update (app c), tr := tr c @ [EvSend update]\<rparr>"

definition do_write :: "string \<Rightarrow> ctx \<Rightarrow> ctx \<times> bool" where
  "do_write data c =
     (let (w, err) = Write data (wr c) in (c\<lparr>wr := w, tr := tr c @ [EvWrite data (\<not> err)]\<rparr>, err))"

definition do_flush :: "ctx \<Rightarrow> ctx" where
  "do_flush c = c\<lparr>wr := Flush (wr c), tr := tr c @ [EvFlush]\<rparr>"

definition do_sendHistory :: "ctx \<Rightarrow> ctx \<times> bool" where
  "do_sendHistory c =
     (let (w, err) = sendHistory (wr c) (app c) in (c\<lparr>wr := w, tr := tr c @ [EvSendHistory err]\<rparr>, err))"

definition do_redirect :: "request \<Rightarrow> string \<Rightarrow> nat \<Rightarrow> ctx \<Rightarrow> ctx" where
  "do_redirect r url code c = c\<lparr>wr := Redirect r url code (wr c), tr := tr c @ [EvRedirect url code]\<rparr>"

text \<open>\<^verbatim>\<open>msg := <-ch\<close> on a channel that holds a payload.\<close>

definition recv :: "nat \<Rightarrow> ctx \<Rightarrow> ctx" where
  "recv ch c =
     c\<lparr>app := (app c)\<lparr>heap := (heap (app c))(ch := (heap (app c) ch)\<lparr>buf := tl (buf (heap (app c) ch))\<rparr>)\<rparr>\<rparr>"

text \<open>The deferred function of \<open>getHandler\<close>.\<close>

definition deferred :: "nat \<Rightarrow> ctx \<Rightarrow> ctx" where
  "deferred ch c = do_sendCount (do_removeChan ch c)"

text \<open>
  The endless \<^verbatim>\<open>for\<close> loop of \<open>getHandler\<close>, run for at most \<open>fuel\<close> iterations; a run
  that is still in the loop then is \<open>Running\<close>, and one left by \<^verbatim>\<open>return\<close> is \<open>Returned\<close>.
  The \<^verbatim>\<open>select\<close> receives when the channel holds a payload; with an empty channel and
  no other handler running, the timer fires and a single space is written.
\<close>

fun live_loop :: "nat \<Rightarrow> nat \<Rightarrow> ctx \<Rightarrow> outcome \<times> ctx" where
  "live_loop 0 ch c = (Running, c)"
| "live_loop (Suc fuel) ch c =
     (case buf (heap (app c) ch) of
        msg # _ \<Rightarrow>
          (let (c1, err) = do_write msg (recv ch c)
           in if err then (Returned, c1) else live_loop fuel ch (do_flush c1))
      | [] \<Rightarrow>
          (let (c1, err) = do_write '' '' c
           in if err then (Returned, c1) else live_loop fuel ch (do_flush c1)))"

definition getHandler :: "nat \<Rightarrow> request \<Rightarrow> ctx \<Rightarrow> outcome \<times> ctx" where
  "getHandler fuel r c =
     (let c1 = c\<lparr>wr := Header_Set ''Content-Type'' ''text/html; charset=utf-8'' (wr c)\<rparr>
      in if \<not> is_flusher (wr c1) then (Returned, c1)
         else
           let (ch, c2) = do_make bufferSize c1;
               c3 = do_addChan ch c2;
               (c4, _) = do_write pageHead c3;
               (c5, err) = do_sendHistory c4
           in if err then (Returned, deferred ch c5)
              else
                let c6 = do_flush c5;
                    c7 = do_sendCount c6
                in case live_loop fuel ch c7 of
                     (Running, c8) \<Rightarrow> (Running, c8)
                   | (Returned, c8) \<Rightarrow> (Returned, deferred ch c8))"

definition postHandler :: "civil \<Rightarrow> request \<Rightarrow> ctx \<Rightarrow> ctx" where
  "postHandler now r c =
     (let msg = Get (PostForm r) ''msg''
      in if length msg > maxMsgLen then do_redirect r ''/'' 302 c
         else
           let msg1 = HTMLEscapeString msg;
               msg2 = TrimSpace msg1;
               c1 = (if length msg2 > 0
                     then do_send \<lparr>timestamp = Format now, message = msg2\<rparr> c
                     else c)
           in do_redirect r ''/'' 302 c1)"

definition handler :: "nat \<Rightarrow> civil \<Rightarrow> request \<Rightarrow> ctx \<Rightarrow> outcome \<times> ctx" where
  "handler fuel now r c =
     (if Method r = ''GET'' then getHandler fuel r c
      else if Method r = ''POST'' then (Returned, postHandler now r c)
      else (Returned, c))"

subsection \<open>White space by code point\<close>

text \<open>
  Unicode's white space, listed by code point, and the UTF-8 encoding of a code point of
  the Basic Multilingual Plane. \<open>white_space\<close> holds the byte sequences that stand for one
  white-space character; it is stated apart from the table \<open>TrimSpace\<close> works with.
\<close>

definition utf8 :: "nat \<Rightarrow> string" where
  "utf8 n =
     (if n < 0x80 then [char_of n]
      else if n < 0x800 then [char_of (0xC0 + n div 0x40), char_of (0x80 + n mod 0x40)]
      else [char_of (0xE0 + n div 0x1000), char_of (0x80 + n div 0x40 mod 0x40),
            char_of (0x80 + n mod 0x40)])"

definition white_space :: "string list" where
  "white_space =
     map utf8
       [0x09, 0x0A, 0x0B, 0x0C, 0x0D, 0x20, 0x85, 0xA0, 0x1680,
        0x2000, 0x2001, 0x2002, 0x2003, 0x2004, 0x2005, 0x2006, 0x2007, 0x2008, 0x2009, 0x200A,
        0x2028, 0x2029, 0x202F, 0x205F, 0x3000]"

subsection \<open>Well-formed applications\<close>

text \<open>
  Every registered reference has been handed out by \<^verbatim>\<open>make\<close>, and the channel it points to
  has the capacity \<open>bufferSize\<close>. This holds of \<open>NewApp\<close> and is kept by every handler.
\<close>

definition registry_ok :: "App \<Rightarrow> bool" where
  "registry_ok a = (\<forall>ch. ch |\<in>| chans a \<longrightarrow> ch < nxt a \<and> cap (heap a ch) = bufferSize)"

subsection \<open>Properties of the calls a handler makes\<close>

text \<open>Writes and flushes, the calls of the live loop.\<close>

fun io_event :: "event \<Rightarrow> bool" where
  "io_event (EvWrite _ _) = True"
| "io_event EvFlush = True"
| "io_event _ = False"

text \<open>
  The claim that a queue is joined to the registry only after the history replay has been
  written: every \<open>addChan\<close> comes after a \<open>sendHistory\<close>. The flag says whether the replay
  has been seen.
\<close>

fun joins_after_replay :: "bool \<Rightarrow> event list \<Rightarrow> bool" where
  "joins_after_replay replayed [] = True"
| "joins_after_replay replayed (e # es) =
     (case e of
        EvAddChan _ \<Rightarrow> replayed \<and> joins_after_replay replayed es
      | EvSendHistory _ \<Rightarrow> joins_after_replay True es
      | _ \<Rightarrow> joins_after_replay replayed es)"

text \<open>The count fragment as the specification writes it, for a count \<open>n\<close>.\<close>

definition count_fragment :: "nat \<Rightarrow> string" where
  \<open>count_fragment n = ''<style>#nc::before{content:"'' @ decimal n @ ''"}</style>''\<close>



subsection \<open>Concrete inputs\<close>

text \<open>States and requests at which the theorems below are instantiated.\<close>

definition numbered :: "nat \<Rightarrow> Update" where
  "numbered i = \<lparr>timestamp = decimal i, message = ''m''\<rparr>"

definition two_conns :: App where
  "two_conns =
     \<lparr>chans = {|0, 1|}, history = [],
      heap = (\<lambda>_. \<lparr>cap = bufferSize, buf = []\<rparr>)(1 := \<lparr>cap = bufferSize, buf = replicate 5 ''x''\<rparr>),
      nxt = 2\<rparr>"

definition hello :: Update where
  "hello = \<lparr>timestamp = ''2024-01-02 03:04:05'', message = ''hello''\<rparr>"

definition fresh_writer :: writer where
  "fresh_writer =
     \<lparr>hdr = Map.empty, status = None, body = [], flushes = 0, is_flusher = True,
      wr_ok = (\<lambda>_. True), wr_calls = 0\<rparr>"

definition post_request :: "string \<Rightarrow> request" where
  "post_request m = \<lparr>Method = ''POST'', PostForm = [(''msg'', [m])]\<rparr>"

definition chat :: ctx where
  "chat = \<lparr>wr = fresh_writer, app = two_conns, tr = []\<rparr>"

definition noon :: civil where
  "noon = \<lparr>year = 2024, month = 1, day = 2, hour = 3, minute = 4, second = 5\<rparr>"

definition one_entry :: App where
  "one_entry = NewApp\<lparr>history := [hello]\<rparr>"

definition get_request :: request where
  "get_request = \<lparr>Method = ''GET'', PostForm = []\<rparr>"

definition put_request :: request where
  "put_request = \<lparr>Method = ''PUT'', PostForm = []\<rparr>"

definition first_visit :: ctx where
  "first_visit = \<lparr>wr = fresh_writer, app = one_entry, tr = []\<rparr>"


definition spaced_request :: request where
  "spaced_request =
     post_request ([CHR 0x20, CHR 0xC2, CHR 0xA0] @ ''<b>a & b</b>''
                   @ [CHR 0x09, CHR 0xE2, CHR 0x80, CHR 0x83, CHR 0x0A])"

section \<open>Properties\<close>

subsection \<open>The fan-out loop\<close>

lemma range_send_chans [simp]: "chans (range_send ks d a) = chans a"
  by (induction ks arbitrary: a) (simp_all add: try_send_def)

lemma range_send_history [simp]: "history (range_send ks d a) = history a"
  by (induction ks arbitrary: a) (simp_all add: try_send_def)

lemma range_send_nxt [simp]: "nxt (range_send ks d a) = nxt a"
  by (induction ks arbitrary: a) (simp_all add: try_send_def)

lemma range_send_more [simp]: "App.more (range_send ks d a) = App.more a"
  by (induction ks arbitrary: a) (simp_all add: try_send_def)

lemma heap_range_send:
  "distinct ks \<Longrightarrow>
   heap (range_send ks d a) c = (if c \<in> set ks then offer d (heap a c) else heap a c)"
proof (induction ks arbitrary: a)
  case Nil
  show ?case by simp
next
  case (Cons k ks)
  from Cons.prems have "k \<notin> set ks" and "distinct ks"
    by simp_all
  with Cons.IH [of "try_send k d a"] show ?case
    by (auto simp: try_send_def)
qed

lemma range_send_any_order:
  assumes "distinct ks" and "distinct ks'" and "set ks = set ks'"
  shows "range_send ks d a = range_send ks' d a"
proof (rule App.equality)
  show "heap (range_send ks d a) = heap (range_send ks' d a)"
    using assms by (auto simp: heap_range_send fun_eq_iff)
qed simp_all

lemma heap_range_send_registry:
  "heap (range_send (sorted_list_of_fset S) d a) c = (if c |\<in>| S then offer d (heap a c) else heap a c)"
  by (simp add: heap_range_send sorted_list_of_fset.rep_eq)

subsection \<open>The history window\<close>

lemma append_update_history:
  "history (append_update u a) = drop (length (history a @ [u]) - historyLimit) (history a @ [u])"
  by (simp add: append_update_def Let_def)

lemma append_update_fields [simp]:
  "chans (append_update u a) = chans a" "heap (append_update u a) = heap a" "nxt (append_update u a) = nxt a"
  by (simp_all add: append_update_def Let_def)

lemma drop_window_append:
  "drop (length (drop (length xs - n) xs @ ys) - n) (drop (length xs - n) xs @ ys)
     = drop (length (xs @ ys) - n) (xs @ ys)"
proof (cases "length xs \<le> n")
  case True
  then show ?thesis by simp
next
  case False
  then have "length (drop (length xs - n) xs @ ys) - n = length ys"
    by simp
  moreover from False have "length (xs @ ys) - n = (length xs - n) + length ys"
    by simp
  ultimately show ?thesis
    by (simp add: drop_Suc add.commute)
qed

lemma fold_append_update_history:
  "history (fold append_update us (append_update u a))
     = drop (length (history a @ u # us) - historyLimit) (history a @ u # us)"
proof (induction us arbitrary: a u)
  case Nil
  show ?case by (simp add: append_update_history)
next
  case (Cons v us)
  have "history (fold append_update (v # us) (append_update u a))
          = history (fold append_update us (append_update v (append_update u a)))"
    by simp
  also have "\<dots> = drop (length (history (append_update u a) @ v # us) - historyLimit)
                      (history (append_update u a) @ v # us)"
    by (rule Cons.IH)
  also have "\<dots> = drop (length ((history a @ [u]) @ v # us) - historyLimit) ((history a @ [u]) @ v # us)"
    unfolding append_update_history by (rule drop_window_append)
  finally show ?case by simp
qed

lemma fold_append_update_window:
  assumes "length (history a) \<le> historyLimit"
  shows "history (fold append_update us a)
           = drop (length (history a @ us) - historyLimit) (history a @ us)"
proof (cases us)
  case Nil
  with assms show ?thesis by simp
next
  case (Cons u us')
  then show ?thesis by (simp add: fold_append_update_history)
qed

text \<open>
  C2. Whatever updates are appended, the history never holds more than \<open>historyLimit\<close>
  entries, and after \<open>historyLimit + k\<close> appends with \<open>k \<ge> 1\<close> it holds exactly the
  last \<open>historyLimit\<close> of them, in the order in which they were appended.
\<close>

theorem history_window:
  assumes "length (history a) \<le> historyLimit"
  shows "length (history (fold append_update us a)) \<le> historyLimit
         \<and> (\<forall>k. 1 \<le> k \<and> length us = historyLimit + k
                \<longrightarrow> history (fold append_update us a) = drop k us)"
proof -
  have win: "history (fold append_update us a)
               = drop (length (history a @ us) - historyLimit) (history a @ us)"
    using assms by (rule fold_append_update_window)
  have "length (history (fold append_update us a)) \<le> historyLimit"
    unfolding win by simp
  moreover have "history (fold append_update us a) = drop k us"
    if "1 \<le> k \<and> length us = historyLimit + k" for k
    unfolding win using that by simp
  ultimately show ?thesis by blast
qed

theorem history_window_witness:
  "length (history NewApp) \<le> historyLimit
   \<and> length (map numbered [0..<22]) = historyLimit + 2
   \<and> length (history (fold append_update (map numbered [0..<22]) NewApp)) \<le> historyLimit
   \<and> history (fold append_update (map numbered [0..<22]) NewApp) = drop 2 (map numbered [0..<22])"
proof -
  have h: "length (history NewApp) \<le> historyLimit"
    by (simp add: NewApp_def)
  have l: "length (map numbered [0..<22]) = historyLimit + 2"
    by (simp add: historyLimit_def)
  from history_window [OF h, of "map numbered [0..<22]"] h l show ?thesis
    by simp
qed

subsection \<open>Sending an update\<close>

lemma last_append_update: "last (history (append_update u a)) = u"
proof -
  have "length (history a @ [u]) - historyLimit \<le> length (history a)"
    by (simp add: historyLimit_def)
  then have "drop (length (history a @ [u]) - historyLimit) (history a @ [u])
               = drop (length (history a @ [u]) - historyLimit) (history a) @ [u]"
    by simp
  then show ?thesis
    by (simp add: append_update_history del: drop_append)
qed

text \<open>
  C1. \<open>send\<close> appends the update to the history and offers the rendered fragment to
  every channel of the registry: a registered channel holding fewer than \<open>bufferSize\<close>
  payloads gets exactly one copy at its tail, a full one gets none, and no other channel is
  touched. \<open>send\<close> is a total function whose sends are all \<open>offer\<close>s, which never wait.
  The hypothesis is part of \<open>registry_ok\<close>, which every handler keeps.
\<close>

theorem send_fan_out:
  assumes "\<forall>c. c |\<in>| chans a \<longrightarrow> cap (heap a c) = bufferSize"
  shows "history (send u a) = history (append_update u a)
         \<and> last (history (send u a)) = u
         \<and> chans (send u a) = chans a
         \<and> (\<forall>c. heap (send u a) c =
                (if c |\<in>| chans a \<and> length (buf (heap a c)) < bufferSize
                 then (heap a c)\<lparr>buf := buf (heap a c) @ [update_data u]\<rparr>
                 else heap a c))"
proof -
  have hist: "history (send u a) = history (append_update u a)"
    by (simp add: send_def Let_def)
  have reg: "chans (send u a) = chans a"
    by (simp add: send_def Let_def)
  have "heap (send u a) c =
          (if c |\<in>| chans a \<and> length (buf (heap a c)) < bufferSize
           then (heap a c)\<lparr>buf := buf (heap a c) @ [update_data u]\<rparr>
           else heap a c)" for c
    using assms by (simp add: send_def Let_def heap_range_send_registry offer_def)
  with hist reg show ?thesis
    by (simp add: last_append_update)
qed

theorem send_fan_out_witness:
  "cap (heap two_conns 0) = bufferSize \<and> cap (heap two_conns 1) = bufferSize
   \<and> history (send hello two_conns) = [hello]
   \<and> buf (heap (send hello two_conns) 0) = [update_data hello]
   \<and> buf (heap (send hello two_conns) 1) = replicate 5 ''x''
   \<and> buf (heap (send hello two_conns) 2) = []"
proof -
  have h: "\<forall>c. c |\<in>| chans two_conns \<longrightarrow> cap (heap two_conns c) = bufferSize"
    by (simp add: two_conns_def)
  have a: "history (append_update hello two_conns) = [hello]"
    by (simp add: append_update_history two_conns_def historyLimit_def)
  from send_fan_out [OF h, of hello] h a show ?thesis
    by (simp add: two_conns_def bufferSize_def)
qed

subsection \<open>The submit handler\<close>

lemma status_WriteHeader:
  "status (WriteHeader code w) = (case status w of None \<Rightarrow> Some code | Some s \<Rightarrow> Some s)"
  by (simp add: WriteHeader_def split: option.splits)

lemma WriteHeader_fields [simp]:
  "hdr (WriteHeader code w) = hdr w" "body (WriteHeader code w) = body w"
  "flushes (WriteHeader code w) = flushes w" "is_flusher (WriteHeader code w) = is_flusher w"
  "wr_ok (WriteHeader code w) = wr_ok w" "wr_calls (WriteHeader code w) = wr_calls w"
  by (simp_all add: WriteHeader_def split: option.splits)

lemma Redirect_POST:
  "Method r = ''POST'' \<Longrightarrow> Redirect r url code w = WriteHeader code (Header_Set ''Location'' url w)"
  by (simp add: Redirect_def Let_def)

lemma do_redirect_fields [simp]:
  "app (do_redirect r url code c) = app c"
  "tr (do_redirect r url code c) = tr c @ [EvRedirect url code]"
  "wr (do_redirect r url code c) = Redirect r url code (wr c)"
  by (simp_all add: do_redirect_def)

lemma do_send_fields [simp]:
  "app (do_send u c) = send u (app c)"
  "tr (do_send u c) = tr c @ [EvSend u]"
  "wr (do_send u c) = wr c"
  by (simp_all add: do_send_def)

lemma postHandler_rejects:
  "maxMsgLen < length (Get (PostForm r) ''msg'') \<Longrightarrow> postHandler now r c = do_redirect r ''/'' 302 c"
  by (simp add: postHandler_def Let_def)

lemma postHandler_blank:
  "TrimSpace (HTMLEscapeString (Get (PostForm r) ''msg'')) = []
   \<Longrightarrow> postHandler now r c = do_redirect r ''/'' 302 c"
  by (simp add: postHandler_def Let_def)

lemma postHandler_accepts:
  "length (Get (PostForm r) ''msg'') \<le> maxMsgLen
   \<Longrightarrow> TrimSpace (HTMLEscapeString (Get (PostForm r) ''msg'')) \<noteq> []
   \<Longrightarrow> postHandler now r c =
        do_redirect r ''/'' 302
          (do_send \<lparr>timestamp = Format now,
                    message = TrimSpace (HTMLEscapeString (Get (PostForm r) ''msg''))\<rparr> c)"
  by (simp add: postHandler_def Let_def)

lemma wr_postHandler: "wr (postHandler now r c) = Redirect r ''/'' 302 (wr c)"
  by (simp add: postHandler_def Let_def)

text \<open>
  C4. A POST request is answered with status 302 and \<^verbatim>\<open>Location: /\<close>, and no body is
  written. When the \<^verbatim>\<open>msg\<close> field is longer than \<open>maxMsgLen\<close> the application is left as
  it was (history, registry and every channel), and the redirect is the only call made.
\<close>

theorem post_redirects:
  assumes "Method r = ''POST''" and "status (wr c) = None"
  shows "fst (handler fuel now r c) = Returned
         \<and> status (wr (snd (handler fuel now r c))) = Some 302
         \<and> hdr (wr (snd (handler fuel now r c))) ''Location'' = Some ''/''
         \<and> body (wr (snd (handler fuel now r c))) = body (wr c)
         \<and> (maxMsgLen < length (Get (PostForm r) ''msg'')
              \<longrightarrow> app (snd (handler fuel now r c)) = app c
                  \<and> tr (snd (handler fuel now r c)) = tr c @ [EvRedirect ''/'' 302])"
proof -
  have h: "handler fuel now r c = (Returned, postHandler now r c)"
    using assms(1) by (simp add: handler_def)
  have w: "wr (postHandler now r c) = WriteHeader 302 (Header_Set ''Location'' ''/'' (wr c))"
    using assms(1) by (simp add: wr_postHandler Redirect_POST)
  have "status (wr (postHandler now r c)) = Some 302"
    unfolding w using assms(2) by (simp add: status_WriteHeader Header_Set_def)
  moreover have "hdr (wr (postHandler now r c)) ''Location'' = Some ''/''"
    unfolding w by (simp add: Header_Set_def)
  moreover have "body (wr (postHandler now r c)) = body (wr c)"
    unfolding w by (simp add: Header_Set_def)
  moreover have "app (postHandler now r c) = app c \<and> tr (postHandler now r c) = tr c @ [EvRedirect ''/'' 302]"
    if "maxMsgLen < length (Get (PostForm r) ''msg'')"
    using that by (simp add: postHandler_rejects)
  ultimately show ?thesis
    unfolding h by simp
qed

theorem post_redirects_witness:
  "Method (post_request (replicate 1025 (CHR ''a''))) = ''POST''
   \<and> maxMsgLen < length (Get (PostForm (post_request (replicate 1025 (CHR ''a'')))) ''msg'')
   \<and> status (wr (snd (handler 0 noon (post_request (replicate 1025 (CHR ''a''))) chat))) = Some 302
   \<and> app (snd (handler 0 noon (post_request (replicate 1025 (CHR ''a''))) chat)) = two_conns"
proof -
  have m: "Method (post_request (replicate 1025 (CHR ''a''))) = ''POST''"
    by (simp add: post_request_def)
  have s: "status (wr chat) = None"
    by (simp add: chat_def fresh_writer_def)
  have l: "maxMsgLen < length (Get (PostForm (post_request (replicate 1025 (CHR ''a'')))) ''msg'')"
    by (simp add: post_request_def Get_def maxMsgLen_def)
  have a: "app chat = two_conns"
    by (simp add: chat_def)
  from post_redirects [OF m s, of 0 noon] m l a show ?thesis
    by simp
qed

text \<open>
  C8. When the \<^verbatim>\<open>msg\<close> field is empty after escaping and trimming, the application is
  left as it was (nothing is appended to the history and no channel receives anything), and
  the redirect is the only call made.
\<close>

theorem blank_post_ignored:
  assumes "TrimSpace (HTMLEscapeString (Get (PostForm r) ''msg'')) = []"
  shows "app (postHandler now r c) = app c
         \<and> tr (postHandler now r c) = tr c @ [EvRedirect ''/'' 302]"
  using assms by (simp add: postHandler_blank)

theorem blank_post_ignored_witness:
  "TrimSpace (HTMLEscapeString (Get (PostForm (post_request [CHR 0x20, CHR 0x09, CHR 0xC2, CHR 0xA0, CHR 0x0A])) ''msg'')) = []
   \<and> app (postHandler noon (post_request [CHR 0x20, CHR 0x09, CHR 0xC2, CHR 0xA0, CHR 0x0A]) chat) = two_conns
   \<and> tr (postHandler noon (post_request [CHR 0x20, CHR 0x09, CHR 0xC2, CHR 0xA0, CHR 0x0A]) chat) = [EvRedirect ''/'' 302]"
proof -
  have e: "TrimSpace (HTMLEscapeString (Get (PostForm (post_request [CHR 0x20, CHR 0x09, CHR 0xC2, CHR 0xA0, CHR 0x0A])) ''msg'')) = []"
    by code_simp
  from blank_post_ignored [OF e, of noon chat] e show ?thesis
    by (simp add: chat_def)
qed

subsection \<open>Escaping and trimming\<close>

lemma escape_byte_plain:
  "x \<in> set (escape_byte c) \<Longrightarrow> x \<notin> {CHR 0x00, CHR 0x22, CHR 0x27, CHR ''<'', CHR ''>''}"
  by (auto simp: escape_byte_def split: if_splits)

lemma HTMLEscapeString_plain:
  "set (HTMLEscapeString s) \<inter> {CHR 0x00, CHR 0x22, CHR 0x27, CHR ''<'', CHR ''>''} = {}"
  using escape_byte_plain by (fastforce simp: HTMLEscapeString_def)

lemma set_trim_left: "set (trim_left encs s) \<subseteq> set s"
proof (induction encs s rule: trim_left.induct)
  case (1 encs s)
  show ?case
  proof (cases "leading_space encs s = 0")
    case True
    then show ?thesis by (simp add: trim_left.simps [of encs s])
  next
    case False
    with "1.IH" have "set (trim_left encs (drop (leading_space encs s) s)) \<subseteq> set (drop (leading_space encs s) s)"
      by simp
    also have "\<dots> \<subseteq> set s"
      by (rule set_drop_subset)
    finally show ?thesis
      using False by (simp add: trim_left.simps [of encs s])
  qed
qed

lemma set_TrimSpace: "set (TrimSpace s) \<subseteq> set s"
  using set_trim_left [of "map rev space_encodings" "rev (trim_left space_encodings s)"]
    set_trim_left [of space_encodings s]
  by (auto simp: TrimSpace_def trim_right_def)

lemma leading_space_none:
  assumes "s \<noteq> []" and "[] \<notin> set encs" and "hd s \<notin> hd ` set encs"
  shows "leading_space encs s = 0"
proof -
  have "\<not> prefix e s" if "e \<in> set encs" for e
  proof
    assume p: "prefix e s"
    from that assms(2) have "e \<noteq> []" by auto
    with p assms(1) have "hd e = hd s"
      by (cases e; cases s) auto
    with that assms(3) show False by (metis imageI)
  qed
  then have "find (\<lambda>e. prefix e s) encs = None"
    by (simp add: find_None_iff)
  then show ?thesis
    by (simp add: leading_space_def)
qed

lemma TrimSpace_unchanged:
  assumes "s \<noteq> []"
    and "hd s \<notin> hd ` set space_encodings"
    and "last s \<notin> last ` set space_encodings"
  shows "TrimSpace s = s"
proof -
  have ne: "[] \<notin> set space_encodings"
    by (simp add: space_encodings_def)
  have l: "trim_left space_encodings s = s"
    using leading_space_none [OF assms(1) ne assms(2)] by (simp add: trim_left.simps [of _ s])
  have "hd (rev s) \<notin> hd ` set (map rev space_encodings)"
  proof
    assume "hd (rev s) \<in> hd ` set (map rev space_encodings)"
    then obtain e where e: "e \<in> set space_encodings" "hd (rev s) = hd (rev e)"
      by auto
    with ne have "e \<noteq> []" by auto
    with e(2) assms(1) have "last s = last e"
      by (simp add: hd_rev)
    with e(1) assms(3) show False by auto
  qed
  moreover have "[] \<notin> set (map rev space_encodings)"
    using ne by auto
  moreover have "rev s \<noteq> []"
    using assms(1) by simp
  ultimately have "leading_space (map rev space_encodings) (rev s) = 0"
    by (intro leading_space_none)
  then have "trim_right space_encodings s = s"
    by (simp add: trim_right_def trim_left.simps [of _ "rev s"])
  with l show ?thesis
    by (simp add: TrimSpace_def)
qed

lemma heap_send:
  "heap (send u a) c = (if c |\<in>| chans a then offer (update_data u) (heap a c) else heap a c)"
  by (simp add: send_def Let_def heap_range_send_registry)

lemma history_send: "history (send u a) = history (append_update u a)"
  by (simp add: send_def Let_def)

lemma white_space_table: "space_encodings = white_space"
  by (simp add: space_encodings_def white_space_def utf8_def char_of_def bit_Suc_0_iff)

lemma trim_left_stripped:
  "\<exists>ws. set ws \<subseteq> set encs \<and> s = concat ws @ trim_left encs s"
proof (induction encs s rule: trim_left.induct)
  case (1 encs s)
  show ?case
  proof (cases "leading_space encs s = 0")
    case True
    then have "set [] \<subseteq> set encs \<and> s = concat [] @ trim_left encs s"
      by (simp add: trim_left.simps [of encs s])
    then show ?thesis by blast
  next
    case False
    then obtain e where e: "find (\<lambda>e. prefix e s) encs = Some e" "leading_space encs s = length e"
      by (auto simp: leading_space_def split: option.splits)
    from e(1) have p: "prefix e s" and m: "e \<in> set encs"
      by (auto simp: find_Some_iff)
    from p have s: "s = e @ drop (length e) s"
      by (auto simp: prefix_def)
    from "1.IH" [OF False] obtain ws where ws: "set ws \<subseteq> set encs"
      "drop (leading_space encs s) s = concat ws @ trim_left encs (drop (leading_space encs s) s)"
      by blast
    have t: "trim_left encs s = trim_left encs (drop (length e) s)"
      using False e(2) by (simp add: trim_left.simps [of encs s])
    from ws(2) e(2) t have "drop (length e) s = concat ws @ trim_left encs s"
      by simp
    with s have "s = concat (e # ws) @ trim_left encs s"
      by (metis append.assoc concat.simps(2))
    moreover from m ws(1) have "set (e # ws) \<subseteq> set encs"
      by simp
    ultimately show ?thesis by blast
  qed
qed

lemma trim_left_no_lead:
  "[] \<notin> set encs \<Longrightarrow> \<forall>e\<in>set encs. \<not> prefix e (trim_left encs s)"
proof (induction encs s rule: trim_left.induct)
  case (1 encs s)
  show ?case
  proof (cases "leading_space encs s = 0")
    case True
    have "find (\<lambda>e. prefix e s) encs = None"
    proof (cases "find (\<lambda>e. prefix e s) encs")
      case None
      then show ?thesis .
    next
      case (Some e)
      with True have "e = []"
        by (simp add: leading_space_def)
      moreover from Some have "e \<in> set encs"
        by (auto simp: find_Some_iff)
      ultimately show ?thesis
        using "1.prems" by blast
    qed
    then have "\<forall>e\<in>set encs. \<not> prefix e s"
      by (simp add: find_None_iff)
    with True show ?thesis
      by (simp add: trim_left.simps [of encs s])
  next
    case False
    with "1.IH" "1.prems" show ?thesis
      by (simp add: trim_left.simps [of encs s])
  qed
qed

lemma trim_right_stripped:
  "\<exists>ws. set ws \<subseteq> set encs \<and> s = trim_right encs s @ concat ws"
proof -
  from trim_left_stripped [of "map rev encs" "rev s"] obtain ws where ws: "set ws \<subseteq> set (map rev encs)"
    "rev s = concat ws @ trim_left (map rev encs) (rev s)"
    by blast
  from ws(2) have "rev (rev s) = rev (concat ws @ trim_left (map rev encs) (rev s))"
    by simp
  then have "s = trim_right encs s @ concat (map rev (rev ws))"
    by (simp add: trim_right_def rev_concat)
  moreover from ws(1) have "set (map rev (rev ws)) \<subseteq> set encs"
    by auto
  ultimately show ?thesis by blast
qed

lemma trim_right_no_trail:
  assumes "[] \<notin> set encs"
  shows "\<forall>e\<in>set encs. \<not> suffix e (trim_right encs s)"
proof -
  have ne: "[] \<notin> set (map rev encs)"
    using assms by auto
  from trim_left_no_lead [OF ne, of "rev s"]
  have "\<forall>e\<in>set encs. \<not> prefix (rev e) (trim_left (map rev encs) (rev s))"
    by simp
  then show ?thesis
    by (simp add: trim_right_def suffix_to_prefix)
qed

lemma TrimSpace_trimmed:
  "\<exists>pre post. set pre \<subseteq> set white_space \<and> set post \<subseteq> set white_space
       \<and> s = concat pre @ TrimSpace s @ concat post"
  "\<forall>w\<in>set white_space. \<not> prefix w (TrimSpace s) \<and> \<not> suffix w (TrimSpace s)"
proof -
  have ne: "[] \<notin> set space_encodings"
    by (simp add: space_encodings_def)
  from trim_left_stripped [of space_encodings s] obtain pre where pre: "set pre \<subseteq> set space_encodings"
    "s = concat pre @ trim_left space_encodings s"
    by blast
  from trim_right_stripped [of space_encodings "trim_left space_encodings s"] obtain post
    where post: "set post \<subseteq> set space_encodings"
      "trim_left space_encodings s = TrimSpace s @ concat post"
    by (auto simp: TrimSpace_def)
  from pre(2) post(2) have "s = concat pre @ TrimSpace s @ concat post"
    by simp
  with pre(1) post(1)
  show "\<exists>pre post. set pre \<subseteq> set white_space \<and> set post \<subseteq> set white_space
       \<and> s = concat pre @ TrimSpace s @ concat post"
    unfolding white_space_table by blast
  have "\<not> prefix w (TrimSpace s)" if w: "w \<in> set space_encodings" for w
  proof
    assume "prefix w (TrimSpace s)"
    then have "prefix w (TrimSpace s @ concat post)"
      by (rule prefix_prefix)
    with post(2) have "prefix w (trim_left space_encodings s)"
      by simp
    with trim_left_no_lead [OF ne, of s] w show False
      by blast
  qed
  moreover have "\<not> suffix w (TrimSpace s)" if "w \<in> set space_encodings" for w
    using trim_right_no_trail [OF ne, of "trim_left space_encodings s"] that
    by (simp add: TrimSpace_def)
  ultimately show "\<forall>w\<in>set white_space. \<not> prefix w (TrimSpace s) \<and> \<not> suffix w (TrimSpace s)"
    unfolding white_space_table by blast
qed

lemma HTMLEscapeString_spelled:
  \<open>HTMLEscapeString s =
     concat (map (\<lambda>c. if c = CHR ''&'' then ''&amp;''
                       else if c = CHR ''<'' then ''&lt;''
                       else if c = CHR ''>'' then ''&gt;''
                       else if c = CHR 0x22 then ''&#34;''
                       else if c = CHR 0x27 then ''&#39;''
                       else if c = CHR 0x00 then [CHR 0xEF, CHR 0xBF, CHR 0xBD]
                       else [c]) s)\<close>
proof -
  have \<open>escape_byte =
     (\<lambda>c. if c = CHR ''&'' then ''&amp;''
           else if c = CHR ''<'' then ''&lt;''
           else if c = CHR ''>'' then ''&gt;''
           else if c = CHR 0x22 then ''&#34;''
           else if c = CHR 0x27 then ''&#39;''
           else if c = CHR 0x00 then [CHR 0xEF, CHR 0xBF, CHR 0xBD]
           else [c])\<close>
    by (rule ext) (simp add: escape_byte_def)
  then show ?thesis
    by (simp add: HTMLEscapeString_def)
qed

text \<open>
  C5. For an accepted post (raw length at most \<open>maxMsgLen\<close>, not empty after escaping and
  trimming) the update that is stored as the newest history entry and broadcast carries
  the message \<open>m\<close> described as follows. Let \<open>e\<close> be the raw text with \<^verbatim>\<open>&\<close>, \<^verbatim>\<open><\<close>, \<^verbatim>\<open>>\<close>,
  \<^verbatim>\<open>"\<close>, \<^verbatim>\<open>'\<close> and NUL replaced by \<^verbatim>\<open>&amp;\<close>, \<^verbatim>\<open>&lt;\<close>, \<^verbatim>\<open>&gt;\<close>, \<^verbatim>\<open>&#34;\<close>, \<^verbatim>\<open>&#39;\<close> and U+FFFD and
  every other byte kept. Then \<open>e\<close> is \<open>m\<close> with white-space characters before and after
  it, and \<open>m\<close> neither starts nor ends with a white-space character. None of the bytes
  \<^verbatim>\<open>< > " '\<close> and NUL occurs in \<open>m\<close>.
\<close>

theorem accepted_post_escaped:
  assumes "length (Get (PostForm r) ''msg'') \<le> maxMsgLen"
    and "TrimSpace (HTMLEscapeString (Get (PostForm r) ''msg'')) \<noteq> []"
  shows \<open>(let raw = Get (PostForm r) ''msg'';
              e = concat (map (\<lambda>c. if c = CHR ''&'' then ''&amp;''
                                     else if c = CHR ''<'' then ''&lt;''
                                     else if c = CHR ''>'' then ''&gt;''
                                     else if c = CHR 0x22 then ''&#34;''
                                     else if c = CHR 0x27 then ''&#39;''
                                     else if c = CHR 0x00 then [CHR 0xEF, CHR 0xBF, CHR 0xBD]
                                     else [c]) raw);
              c' = postHandler now r c;
              m = message (last (history (app c')));
              u = \<lparr>timestamp = Format now, message = m\<rparr>
          in (\<exists>pre post. set pre \<subseteq> set white_space \<and> set post \<subseteq> set white_space
                \<and> e = concat pre @ m @ concat post)
             \<and> (\<forall>w\<in>set white_space. \<not> prefix w m \<and> \<not> suffix w m)
             \<and> m \<noteq> []
             \<and> m = TrimSpace (HTMLEscapeString raw)
             \<and> last (history (app c')) = u
             \<and> tr c' = tr c @ [EvSend u, EvRedirect ''/'' 302]
             \<and> (\<forall>ch. heap (app c') ch =
                   (if ch |\<in>| chans (app c) \<and> length (buf (heap (app c) ch)) < cap (heap (app c) ch)
                    then (heap (app c) ch)\<lparr>buf := buf (heap (app c) ch) @ [update_data u]\<rparr>
                    else heap (app c) ch))
             \<and> set m \<inter> {CHR 0x00, CHR 0x22, CHR 0x27, CHR ''<'', CHR ''>''} = {})\<close>
proof -
  define raw where "raw = Get (PostForm r) ''msg''"
  define e where \<open>e = concat (map (\<lambda>c. if c = CHR ''&'' then ''&amp;''
                                     else if c = CHR ''<'' then ''&lt;''
                                     else if c = CHR ''>'' then ''&gt;''
                                     else if c = CHR 0x22 then ''&#34;''
                                     else if c = CHR 0x27 then ''&#39;''
                                     else if c = CHR 0x00 then [CHR 0xEF, CHR 0xBF, CHR 0xBD]
                                     else [c]) raw)\<close>
  define m where "m = TrimSpace (HTMLEscapeString raw)"
  define u where "u = \<lparr>timestamp = Format now, message = m\<rparr>"
  have esc: "HTMLEscapeString raw = e"
    unfolding e_def by (rule HTMLEscapeString_spelled)
  have p: "postHandler now r c = do_redirect r ''/'' 302 (do_send u c)"
    unfolding u_def m_def raw_def using assms by (rule postHandler_accepts)
  have l: "last (history (app (postHandler now r c))) = u"
    unfolding p by (simp add: history_send last_append_update)
  then have s: "message (last (history (app (postHandler now r c)))) = m"
    by (simp add: u_def)
  have "\<exists>pre post. set pre \<subseteq> set white_space \<and> set post \<subseteq> set white_space
          \<and> e = concat pre @ m @ concat post"
    using TrimSpace_trimmed(1) [of e] unfolding m_def esc .
  moreover have "\<forall>w\<in>set white_space. \<not> prefix w m \<and> \<not> suffix w m"
    unfolding m_def by (rule TrimSpace_trimmed(2))
  moreover have "m \<noteq> []"
    unfolding m_def raw_def by (rule assms(2))
  moreover have "tr (postHandler now r c) = tr c @ [EvSend u, EvRedirect ''/'' 302]"
    unfolding p by simp
  moreover have "\<forall>ch. heap (app (postHandler now r c)) ch =
       (if ch |\<in>| chans (app c) \<and> length (buf (heap (app c) ch)) < cap (heap (app c) ch)
        then (heap (app c) ch)\<lparr>buf := buf (heap (app c) ch) @ [update_data u]\<rparr>
        else heap (app c) ch)"
    unfolding p by (simp add: heap_send offer_def)
  moreover have "set m \<inter> {CHR 0x00, CHR 0x22, CHR 0x27, CHR ''<'', CHR ''>''} = {}"
    unfolding m_def using set_TrimSpace HTMLEscapeString_plain by fast
  moreover have "m = TrimSpace (HTMLEscapeString raw)"
    by (rule m_def)
  ultimately show ?thesis
    unfolding Let_def raw_def [symmetric] e_def [symmetric] s u_def [symmetric]
    using l by blast
qed

theorem accepted_post_escaped_witness:
  "length (Get (PostForm spaced_request) ''msg'') \<le> maxMsgLen
   \<and> Get (PostForm spaced_request) ''msg''
       = [CHR 0x20, CHR 0xC2, CHR 0xA0] @ ''<b>a & b</b>'' @ [CHR 0x09, CHR 0xE2, CHR 0x80, CHR 0x83, CHR 0x0A]
   \<and> last (history (app (postHandler noon spaced_request chat)))
       = \<lparr>timestamp = ''2024-01-02 03:04:05'', message = ''&lt;b&gt;a &amp; b&lt;/b&gt;''\<rparr>
   \<and> last (history (app (postHandler noon (post_request ''<b>hi</b>'') chat)))
       = \<lparr>timestamp = ''2024-01-02 03:04:05'', message = ''&lt;b&gt;hi&lt;/b&gt;''\<rparr>
   \<and> buf (heap (app (postHandler noon (post_request ''<b>hi</b>'') chat)) 0)
       = [update_data \<lparr>timestamp = ''2024-01-02 03:04:05'', message = ''&lt;b&gt;hi&lt;/b&gt;''\<rparr>]"
proof -
  have g: "Get (PostForm spaced_request) ''msg''
       = [CHR 0x20, CHR 0xC2, CHR 0xA0] @ ''<b>a & b</b>'' @ [CHR 0x09, CHR 0xE2, CHR 0x80, CHR 0x83, CHR 0x0A]"
    by (simp add: spaced_request_def post_request_def Get_def)
  have l: "length (Get (PostForm spaced_request) ''msg'') \<le> maxMsgLen"
    unfolding g by (simp add: maxMsgLen_def)
  have e: "TrimSpace (HTMLEscapeString (Get (PostForm spaced_request) ''msg'')) = ''&lt;b&gt;a &amp; b&lt;/b&gt;''"
    unfolding g by code_simp
  have n: "TrimSpace (HTMLEscapeString (Get (PostForm spaced_request) ''msg'')) \<noteq> []"
    unfolding e by simp
  have f: "Format noon = ''2024-01-02 03:04:05''"
    by code_simp
  from accepted_post_escaped [OF l n, of noon chat]
  have "last (history (app (postHandler noon spaced_request chat)))
          = \<lparr>timestamp = Format noon,
              message = message (last (history (app (postHandler noon spaced_request chat))))\<rparr>"
    and "message (last (history (app (postHandler noon spaced_request chat))))
          = TrimSpace (HTMLEscapeString (Get (PostForm spaced_request) ''msg''))"
    unfolding Let_def by blast+
  then have s: "last (history (app (postHandler noon spaced_request chat)))
       = \<lparr>timestamp = ''2024-01-02 03:04:05'', message = ''&lt;b&gt;a &amp; b&lt;/b&gt;''\<rparr>"
    unfolding e f by simp
  have h: "last (history (app (postHandler noon (post_request ''<b>hi</b>'') chat)))
       = \<lparr>timestamp = ''2024-01-02 03:04:05'', message = ''&lt;b&gt;hi&lt;/b&gt;''\<rparr>"
    by code_simp
  have b: "buf (heap (app (postHandler noon (post_request ''<b>hi</b>'') chat)) 0)
       = [update_data \<lparr>timestamp = ''2024-01-02 03:04:05'', message = ''&lt;b&gt;hi&lt;/b&gt;''\<rparr>]"
    by code_simp
  from l g s h b show ?thesis
    by blast
qed

subsection \<open>The length check\<close>

lemma HTMLEscapeString_lt:
  "HTMLEscapeString (replicate n (CHR ''<'')) = concat (replicate n ''&lt;'')"
  by (simp add: HTMLEscapeString_def escape_byte_def)

lemma hd_concat_replicate: "0 < n \<Longrightarrow> hd (concat (replicate n (a # as))) = a"
  by (cases n) simp_all

lemma last_concat_replicate: "0 < n \<Longrightarrow> as \<noteq> [] \<Longrightarrow> last (concat (replicate n as)) = last as"
proof (cases n)
  case 0
  assume "0 < n"
  with 0 show ?thesis by simp
next
  case (Suc k)
  assume "as \<noteq> []"
  have "replicate (Suc k) as = replicate k as @ [as]"
    by (simp add: replicate_append_same)
  with Suc \<open>as \<noteq> []\<close> show ?thesis
    by simp
qed

lemma TrimSpace_lt: "0 < n \<Longrightarrow> TrimSpace (concat (replicate n ''&lt;'')) = concat (replicate n ''&lt;'')"
proof (rule TrimSpace_unchanged)
  assume n: "0 < n"
  then show "concat (replicate n ''&lt;'') \<noteq> []"
    by (cases n) simp_all
  from n show "hd (concat (replicate n ''&lt;'')) \<notin> hd ` set space_encodings"
    by (simp add: hd_concat_replicate space_encodings_def)
  from n show "last (concat (replicate n ''&lt;'')) \<notin> last ` set space_encodings"
    by (simp add: last_concat_replicate space_encodings_def)
qed

lemma post_lt_stored:
  assumes "0 < n" and "n \<le> maxMsgLen"
  shows "message (last (history (app (postHandler now (post_request (replicate n (CHR ''<''))) c))))
           = concat (replicate n ''&lt;'')"
proof -
  let ?r = "post_request (replicate n (CHR ''<''))"
  have g: "Get (PostForm ?r) ''msg'' = replicate n (CHR ''<'')"
    by (simp add: post_request_def Get_def)
  have t: "TrimSpace (HTMLEscapeString (Get (PostForm ?r) ''msg'')) = concat (replicate n ''&lt;'')"
    unfolding g HTMLEscapeString_lt using assms(1) by (rule TrimSpace_lt)
  have l: "length (Get (PostForm ?r) ''msg'') \<le> maxMsgLen"
    unfolding g using assms(2) by simp
  have n: "TrimSpace (HTMLEscapeString (Get (PostForm ?r) ''msg'')) \<noteq> []"
    unfolding t using assms(1) by (cases n) simp_all
  have "postHandler now ?r c =
          do_redirect ?r ''/'' 302
            (do_send \<lparr>timestamp = Format now, message = concat (replicate n ''&lt;'')\<rparr> c)"
    using postHandler_accepts [OF l n, of now c] unfolding t .
  then show ?thesis
    by (simp add: history_send last_append_update)
qed

text \<open>
  C9. The length check looks at the raw field, before escaping: a field of 1024 bytes
  \<^verbatim>\<open><\<close> passes it, and the message stored for it is 4096 bytes long.
\<close>

theorem raw_length_checked:
  "length (Get (PostForm (post_request (replicate 1024 (CHR ''<'')))) ''msg'') = 1024
   \<and> 1024 \<le> maxMsgLen
   \<and> message (last (history (app (postHandler now (post_request (replicate 1024 (CHR ''<''))) c))))
       = concat (replicate 1024 ''&lt;'')
   \<and> length (message (last (history (app (postHandler now (post_request (replicate 1024 (CHR ''<''))) c)))))
       = 4096
   \<and> maxMsgLen < 4096"
proof -
  have m: "(1024::nat) \<le> maxMsgLen" "maxMsgLen < 4096"
    by (simp_all add: maxMsgLen_def)
  have g: "length (Get (PostForm (post_request (replicate 1024 (CHR ''<'')))) ''msg'') = 1024"
    by (simp add: post_request_def Get_def)
  have len: "length (concat (replicate 1024 ''&lt;'')) = 4096"
    by (simp add: length_concat sum_list_replicate)
  have s: "message (last (history (app (postHandler now (post_request (replicate 1024 (CHR ''<''))) c))))
             = concat (replicate 1024 ''&lt;'')"
    using m(1) by (intro post_lt_stored) simp_all
  show ?thesis
    unfolding s len using m g by blast
qed

subsection \<open>Fragment formats\<close>

lemma update_data_eq:
  \<open>update_data u = ''<div class="new"><p>'' @ message u @ ''</p><time>'' @ timestamp u @ ''</time></div>''\<close>
  by (simp add: update_data_def)

lemma history_data_eq:
  \<open>history_data u = ''<div><p>'' @ message u @ ''</p><time>'' @ timestamp u @ ''</time></div>''\<close>
  by (simp add: history_data_def)

lemma count_data_eq:
  \<open>count_data a = ''<style>#nc::before{content:"'' @ decimal (fcard (chans a)) @ ''"}</style>''\<close>
  by (simp add: count_data_def)

lemma decimal_1: "n < 10 \<Longrightarrow> decimal n = [digit n]"
  by (simp add: decimal.simps [of n])

lemma decimal_2: "10 \<le> n \<Longrightarrow> n < 100 \<Longrightarrow> decimal n = [digit (n div 10), digit (n mod 10)]"
  by (simp add: decimal.simps [of n] decimal_1)

lemma div_10_10: "(n::nat) div 10 div 10 = n div 100"
  by (simp add: div_mult2_eq [symmetric])

lemma div_10_100: "(n::nat) div 10 div 100 = n div 1000"
  by (simp add: div_mult2_eq [symmetric])

lemma decimal_3:
  "100 \<le> n \<Longrightarrow> n < 1000 \<Longrightarrow> decimal n = [digit (n div 100), digit (n div 10 mod 10), digit (n mod 10)]"
  by (simp add: decimal.simps [of n] decimal_2 div_10_10)

lemma decimal_4:
  "1000 \<le> n \<Longrightarrow> n < 10000 \<Longrightarrow>
   decimal n = [digit (n div 1000), digit (n div 100 mod 10), digit (n div 10 mod 10), digit (n mod 10)]"
  by (simp add: decimal.simps [of n] decimal_3 div_10_10 div_10_100)

lemma digit_0: "digit 0 = CHR ''0''"
  by (simp add: digit_def)

lemma replicate_small: "replicate (Suc 0) x = [x]" "replicate 2 x = [x, x]" "replicate 3 x = [x, x, x]"
  by (simp_all add: numeral_2_eq_2 numeral_3_eq_3)

lemma zero_pad_2: "n < 100 \<Longrightarrow> zero_pad 2 n = [digit (n div 10), digit (n mod 10)]"
  by (cases "n < 10") (simp_all add: zero_pad_def decimal_1 decimal_2 digit_0)

lemma zero_pad_4:
  assumes "n < 10000"
  shows "zero_pad 4 n = [digit (n div 1000), digit (n div 100 mod 10), digit (n div 10 mod 10), digit (n mod 10)]"
proof -
  consider "n < 10" | "10 \<le> n" "n < 100" | "100 \<le> n" "n < 1000" | "1000 \<le> n"
    by linarith
  then show ?thesis
  proof cases
    case 1
    then show ?thesis by (simp add: zero_pad_def decimal_1 digit_0 replicate_small)
  next
    case 2
    then show ?thesis by (simp add: zero_pad_def decimal_2 digit_0 replicate_small)
  next
    case 3
    then show ?thesis by (simp add: zero_pad_def decimal_3 digit_0 replicate_small)
  next
    case 4
    with assms show ?thesis by (simp add: zero_pad_def decimal_4)
  qed
qed

lemma Write_body: "body (fst (Write d w)) = (if snd (Write d w) then body w else body w @ [d])"
  by (simp add: Write_def Let_def)

lemma sendHistory_loop_body:
  "\<exists>n\<le>length us.
      body (fst (sendHistory_loop us w)) = body w @ map history_data (take n us)
      \<and> (\<not> snd (sendHistory_loop us w) \<longrightarrow> n = length us)"
proof (induction us arbitrary: w)
  case Nil
  show ?case by simp
next
  case (Cons u us)
  obtain w1 err where wr: "Write (history_data u) w = (w1, err)"
    by (cases "Write (history_data u) w")
  show ?case
  proof (cases err)
    case True
    with wr have "sendHistory_loop (u # us) w = (w1, True)" and "body w1 = body w"
      using Write_body [of "history_data u" w] by simp_all
    then have "body (fst (sendHistory_loop (u # us) w)) = body w @ map history_data (take 0 (u # us))
               \<and> (\<not> snd (sendHistory_loop (u # us) w) \<longrightarrow> 0 = length (u # us))"
      by simp
    then show ?thesis by blast
  next
    case False
    with wr have step: "sendHistory_loop (u # us) w = sendHistory_loop us w1"
      and b: "body w1 = body w @ [history_data u]"
      using Write_body [of "history_data u" w] by simp_all
    from Cons.IH [of w1] obtain n where n: "n \<le> length us"
      "body (fst (sendHistory_loop us w1)) = body w1 @ map history_data (take n us)"
      "\<not> snd (sendHistory_loop us w1) \<longrightarrow> n = length us"
      by blast
    then have "Suc n \<le> length (u # us)
               \<and> body (fst (sendHistory_loop (u # us) w)) = body w @ map history_data (take (Suc n) (u # us))
               \<and> (\<not> snd (sendHistory_loop (u # us) w) \<longrightarrow> Suc n = length (u # us))"
      unfolding step b by simp
    then show ?thesis by blast
  qed
qed

lemma Format_digits:
  assumes "year t < 10000" and "month t < 100" and "day t < 100"
    and "hour t < 100" and "minute t < 100" and "second t < 100"
  shows "Format t =
     [digit (year t div 1000), digit (year t div 100 mod 10), digit (year t div 10 mod 10),
      digit (year t mod 10), CHR ''-'',
      digit (month t div 10), digit (month t mod 10), CHR ''-'',
      digit (day t div 10), digit (day t mod 10), CHR '' '',
      digit (hour t div 10), digit (hour t mod 10), CHR '':'',
      digit (minute t div 10), digit (minute t mod 10), CHR '':'',
      digit (second t div 10), digit (second t mod 10)]"
  using assms by (simp add: Format_def zero_pad_2 zero_pad_4)

text \<open>
  C6, as the code has it. The fragment broadcast for an accepted post is
  \<^verbatim>\<open><div class="new"><p>m</p><time>YYYY-MM-DD HH:MM:SS</time></div>\<close>, where \<open>m\<close> is the escaped
  and trimmed message and the time is the UTC time of the post, written with its nineteen
  characters and no zone suffix. The history replay writes, in order and up to the first
  failing write, \<^verbatim>\<open><div><p>m</p><time>t</time></div>\<close> for each stored update, with the message
  and the timestamp stored in it.
\<close>

theorem fragment_formats:
  assumes "year now < 10000 \<and> month now \<le> 12 \<and> day now \<le> 31
           \<and> hour now < 24 \<and> minute now < 60 \<and> second now < 60"
    and "length (Get (PostForm r) ''msg'') \<le> maxMsgLen"
    and "TrimSpace (HTMLEscapeString (Get (PostForm r) ''msg'')) \<noteq> []"
  shows \<open>(let m = TrimSpace (HTMLEscapeString (Get (PostForm r) ''msg''));
              stamp =
                [digit (year now div 1000), digit (year now div 100 mod 10),
                 digit (year now div 10 mod 10), digit (year now mod 10), CHR ''-'',
                 digit (month now div 10), digit (month now mod 10), CHR ''-'',
                 digit (day now div 10), digit (day now mod 10), CHR '' '',
                 digit (hour now div 10), digit (hour now mod 10), CHR '':'',
                 digit (minute now div 10), digit (minute now mod 10), CHR '':'',
                 digit (second now div 10), digit (second now mod 10)];
              c' = postHandler now r c
          in (\<forall>ch. ch |\<in>| chans (app c) \<and> length (buf (heap (app c) ch)) < cap (heap (app c) ch)
                \<longrightarrow> buf (heap (app c') ch) =
                      buf (heap (app c) ch)
                      @ [''<div class="new"><p>'' @ m @ ''</p><time>'' @ stamp @ ''</time></div>''])
             \<and> last (history (app c')) = \<lparr>timestamp = stamp, message = m\<rparr>
             \<and> (\<exists>n\<le>length (history a).
                   body (fst (sendHistory w a)) =
                     body w @ map (\<lambda>u. ''<div><p>'' @ message u @ ''</p><time>'' @ timestamp u
                                        @ ''</time></div>'') (take n (history a))
                   \<and> (\<not> snd (sendHistory w a) \<longrightarrow> n = length (history a))))\<close>
proof -
  define m where "m = TrimSpace (HTMLEscapeString (Get (PostForm r) ''msg''))"
  define stamp where "stamp =
     [digit (year now div 1000), digit (year now div 100 mod 10),
      digit (year now div 10 mod 10), digit (year now mod 10), CHR ''-'',
      digit (month now div 10), digit (month now mod 10), CHR ''-'',
      digit (day now div 10), digit (day now mod 10), CHR '' '',
      digit (hour now div 10), digit (hour now mod 10), CHR '':'',
      digit (minute now div 10), digit (minute now mod 10), CHR '':'',
      digit (second now div 10), digit (second now mod 10)]"
  have f: "Format now = stamp"
    unfolding stamp_def using assms(1) by (intro Format_digits) simp_all
  have p: "postHandler now r c = do_redirect r ''/'' 302 (do_send \<lparr>timestamp = stamp, message = m\<rparr> c)"
    using postHandler_accepts [OF assms(2,3), of now c] unfolding f m_def .
  have q: \<open>buf (heap (app (postHandler now r c)) ch) =
             buf (heap (app c) ch) @ [''<div class="new"><p>'' @ m @ ''</p><time>'' @ stamp @ ''</time></div>'']\<close>
    if "ch |\<in>| chans (app c) \<and> length (buf (heap (app c) ch)) < cap (heap (app c) ch)" for ch
    unfolding p using that by (simp add: heap_send offer_def update_data_eq)
  have h: "last (history (app (postHandler now r c))) = \<lparr>timestamp = stamp, message = m\<rparr>"
    unfolding p by (simp add: history_send last_append_update)
  have hd: \<open>history_data = (\<lambda>u. ''<div><p>'' @ message u @ ''</p><time>'' @ timestamp u @ ''</time></div>'')\<close>
    by (rule ext) (rule history_data_eq)
  have s: \<open>\<exists>n\<le>length (history a).
             body (fst (sendHistory w a)) =
               body w @ map (\<lambda>u. ''<div><p>'' @ message u @ ''</p><time>'' @ timestamp u
                                  @ ''</time></div>'') (take n (history a))
             \<and> (\<not> snd (sendHistory w a) \<longrightarrow> n = length (history a))\<close>
    using sendHistory_loop_body [of "history a" w] unfolding sendHistory_def hd .
  from q h s show ?thesis
    unfolding Let_def m_def [symmetric] stamp_def [symmetric] by blast
qed

theorem fragment_formats_witness:
  \<open>length (Get (PostForm (post_request ''hi'')) ''msg'') \<le> maxMsgLen
   \<and> buf (heap (app (postHandler noon (post_request ''hi'') chat)) 0)
       = [''<div class="new"><p>hi</p><time>2024-01-02 03:04:05</time></div>'']
   \<and> body (fst (sendHistory fresh_writer one_entry))
       = [''<div><p>hello</p><time>2024-01-02 03:04:05</time></div>'']\<close>
proof -
  have t: "year noon < 10000 \<and> month noon \<le> 12 \<and> day noon \<le> 31
           \<and> hour noon < 24 \<and> minute noon < 60 \<and> second noon < 60"
    by (simp add: noon_def)
  have g: "Get (PostForm (post_request ''hi'')) ''msg'' = ''hi''"
    by (simp add: post_request_def Get_def)
  have l: "length (Get (PostForm (post_request ''hi'')) ''msg'') \<le> maxMsgLen"
    unfolding g by (simp add: maxMsgLen_def)
  have e: "TrimSpace (HTMLEscapeString ''hi'') = ''hi''"
    by code_simp
  have n: "TrimSpace (HTMLEscapeString (Get (PostForm (post_request ''hi'')) ''msg'')) \<noteq> []"
    unfolding g e by simp
  have r: "\<not> snd (sendHistory fresh_writer one_entry)"
    by (simp add: sendHistory_def one_entry_def fresh_writer_def Write_def Let_def)
  from fragment_formats [OF t l n, of chat one_entry fresh_writer] l r show ?thesis
    unfolding g e Let_def
    by (simp add: chat_def two_conns_def bufferSize_def noon_def digit_def one_entry_def
        fresh_writer_def hello_def NewApp_def)
qed

text \<open>
  The fragment broadcast for the post \<^verbatim>\<open>hi\<close> at 2024-01-02 03:04:05 UTC ends its time
  with the seconds; it is not the string with \<^verbatim>\<open> UTC\<close> after them.
\<close>

theorem utc_suffix_counterexample:
  \<open>buf (heap (app (postHandler noon (post_request ''hi'') chat)) 0)
     = [''<div class="new"><p>hi</p><time>2024-01-02 03:04:05</time></div>'']
   \<and> buf (heap (app (postHandler noon (post_request ''hi'') chat)) 0)
     \<noteq> [''<div class="new"><p>hi</p><time>2024-01-02 03:04:05 UTC</time></div>'']\<close>
proof -
  have \<open>buf (heap (app (postHandler noon (post_request ''hi'') chat)) 0)
     = [''<div class="new"><p>hi</p><time>2024-01-02 03:04:05</time></div>'']\<close>
    by code_simp
  then show ?thesis
    by simp
qed

subsection \<open>Other methods\<close>

text \<open>
  C10. For a request whose method is neither GET nor POST the handler returns with its
  context as it was: nothing is written to the response, the registry, the history and
  the channels are unchanged, and no call on either is made.
\<close>

theorem other_methods_ignored:
  assumes "Method r \<noteq> ''GET''" and "Method r \<noteq> ''POST''"
  shows "handler fuel now r c = (Returned, c)"
  using assms by (simp add: handler_def)

theorem other_methods_ignored_witness:
  "Method put_request \<noteq> ''GET'' \<and> Method put_request \<noteq> ''POST''
   \<and> handler 3 noon put_request chat = (Returned, chat)"
proof -
  have m: "Method put_request \<noteq> ''GET''" "Method put_request \<noteq> ''POST''"
    by (simp_all add: put_request_def)
  from other_methods_ignored [OF m, of 3 noon chat] m show ?thesis
    by simp
qed

subsection \<open>The connection handler\<close>

lemma count_data_fragment: "count_data a = count_fragment (fcard (chans a))"
  by (simp add: count_data_eq count_fragment_def)

lemma sendCount_chans [simp]: "chans (sendCount a) = chans a"
  by (simp add: sendCount_def Let_def)

lemma do_make_fields:
  "fst (do_make n c) = nxt (app c)"
  "tr (snd (do_make n c)) = tr c @ [EvMake (nxt (app c))]"
  "chans (app (snd (do_make n c))) = chans (app c)"
  "wr (snd (do_make n c)) = wr c"
  by (simp_all add: do_make_def make_chan_def)

lemma do_addChan_fields:
  "tr (do_addChan ch c) = tr c @ [EvAddChan ch]"
  "chans (app (do_addChan ch c)) = finsert ch (chans (app c))"
  "wr (do_addChan ch c) = wr c"
  by (simp_all add: do_addChan_def addChan_def)

lemma do_removeChan_fields:
  "tr (do_removeChan ch c) = tr c @ [EvRemoveChan ch]"
  "chans (app (do_removeChan ch c)) = chans (app c) |-| {|ch|}"
  by (simp_all add: do_removeChan_def removeChan_def)

lemma do_sendCount_fields:
  "tr (do_sendCount c) = tr c @ [EvSendCount (count_fragment (fcard (chans (app c))))]"
  "chans (app (do_sendCount c)) = chans (app c)"
  by (simp_all add: do_sendCount_def count_data_fragment)

lemma do_write_fields:
  "tr (fst (do_write d c)) = tr c @ [EvWrite d (wr_ok (wr c) (wr_calls (wr c)))]"
  "app (fst (do_write d c)) = app c"
  by (simp_all add: do_write_def Write_def Let_def)

lemma do_flush_fields:
  "tr (do_flush c) = tr c @ [EvFlush]"
  "app (do_flush c) = app c"
  by (simp_all add: do_flush_def)

lemma do_sendHistory_fields:
  "tr (fst (do_sendHistory c)) = tr c @ [EvSendHistory (snd (do_sendHistory c))]"
  "app (fst (do_sendHistory c)) = app c"
  by (simp_all add: do_sendHistory_def split_def Let_def)

lemma recv_fields:
  "tr (recv ch c) = tr c"
  "chans (app (recv ch c)) = chans (app c)"
  "wr (recv ch c) = wr c"
  by (simp_all add: recv_def)

lemma deferred_fields:
  "tr (deferred ch c) =
     tr c @ [EvRemoveChan ch, EvSendCount (count_fragment (fcard (chans (app c) |-| {|ch|})))]"
  "chans (app (deferred ch c)) = chans (app c) |-| {|ch|}"
  by (simp_all add: deferred_def do_sendCount_fields do_removeChan_fields)

lemma live_loop_trace:
  "\<exists>io. list_all io_event io
        \<and> tr (snd (live_loop n ch c)) = tr c @ io
        \<and> chans (app (snd (live_loop n ch c))) = chans (app c)"
proof (induction n arbitrary: c)
  case 0
  have "list_all io_event [] \<and> tr (snd (live_loop 0 ch c)) = tr c @ []
        \<and> chans (app (snd (live_loop 0 ch c))) = chans (app c)"
    by simp
  then show ?case by blast
next
  case (Suc n)
  define c0 where "c0 = (case buf (heap (app c) ch) of [] \<Rightarrow> c | _ # _ \<Rightarrow> recv ch c)"
  define d where "d = (case buf (heap (app c) ch) of [] \<Rightarrow> '' '' | msg # _ \<Rightarrow> msg)"
  have c0: "tr c0 = tr c" "chans (app c0) = chans (app c)"
    by (simp_all add: c0_def recv_fields split: list.splits)
  define c1 where "c1 = fst (do_write d c0)"
  have c1: "tr c1 = tr c @ [EvWrite d (wr_ok (wr c0) (wr_calls (wr c0)))]" "chans (app c1) = chans (app c)"
    by (simp_all add: c1_def do_write_fields c0)
  have step: "live_loop (Suc n) ch c =
                (if snd (do_write d c0) then (Returned, c1) else live_loop n ch (do_flush c1))"
    by (simp add: c0_def d_def c1_def split_def split: list.splits)
  show ?case
  proof (cases "snd (do_write d c0)")
    case True
    with step c1 have "list_all io_event [EvWrite d (wr_ok (wr c0) (wr_calls (wr c0)))]
        \<and> tr (snd (live_loop (Suc n) ch c)) = tr c @ [EvWrite d (wr_ok (wr c0) (wr_calls (wr c0)))]
        \<and> chans (app (snd (live_loop (Suc n) ch c))) = chans (app c)"
      by simp
    then show ?thesis by blast
  next
    case False
    from Suc.IH [of "do_flush c1"] obtain io where io: "list_all io_event io"
      "tr (snd (live_loop n ch (do_flush c1))) = tr (do_flush c1) @ io"
      "chans (app (snd (live_loop n ch (do_flush c1)))) = chans (app (do_flush c1))"
      by blast
    with False step c1
    have "list_all io_event (EvWrite d (wr_ok (wr c0) (wr_calls (wr c0))) # EvFlush # io)
        \<and> tr (snd (live_loop (Suc n) ch c)) = tr c @ (EvWrite d (wr_ok (wr c0) (wr_calls (wr c0))) # EvFlush # io)
        \<and> chans (app (snd (live_loop (Suc n) ch c))) = chans (app c)"
      by (simp add: do_flush_fields)
    then show ?thesis by blast
  qed
qed

lemma getHandler_no_flusher:
  "\<not> is_flusher (wr c) \<Longrightarrow>
   getHandler fuel r c = (Returned, c\<lparr>wr := Header_Set ''Content-Type'' ''text/html; charset=utf-8'' (wr c)\<rparr>)"
  by (simp add: getHandler_def Let_def Header_Set_def)

lemma getHandler_trace:
  assumes fl: "is_flusher (wr c)"
  shows "\<exists>err io. list_all io_event io
     \<and> (err \<longrightarrow> fst (getHandler fuel r c) = Returned)
     \<and> tr (snd (getHandler fuel r c)) =
         tr c @ [EvMake (nxt (app c)), EvAddChan (nxt (app c)),
                 EvWrite pageHead (wr_ok (wr c) (wr_calls (wr c))), EvSendHistory err]
         @ (if err then []
            else [EvFlush, EvSendCount (count_fragment (fcard (finsert (nxt (app c)) (chans (app c)))))] @ io)
         @ (if fst (getHandler fuel r c) = Returned
            then [EvRemoveChan (nxt (app c)),
                  EvSendCount (count_fragment (fcard (finsert (nxt (app c)) (chans (app c)) |-| {|nxt (app c)|})))]
            else [])"
proof -
  define ch where "ch = nxt (app c)"
  define c1 where "c1 = c\<lparr>wr := Header_Set ''Content-Type'' ''text/html; charset=utf-8'' (wr c)\<rparr>"
  define c3 where "c3 = do_addChan ch (snd (do_make bufferSize c1))"
  define c4 where "c4 = fst (do_write pageHead c3)"
  define c5 where "c5 = fst (do_sendHistory c4)"
  define err where "err = snd (do_sendHistory c4)"
  define c7 where "c7 = do_sendCount (do_flush c5)"
  have mk: "fst (do_make bufferSize c1) = ch"
    by (simp add: do_make_fields c1_def ch_def)
  have fl1: "is_flusher (wr c1)"
    using fl by (simp add: c1_def Header_Set_def)
  have g: "getHandler fuel r c =
             (if err then (Returned, deferred ch c5)
              else (case live_loop fuel ch c7 of
                      (Running, c8) \<Rightarrow> (Running, c8)
                    | (Returned, c8) \<Rightarrow> (Returned, deferred ch c8)))"
    unfolding getHandler_def Let_def split_def c1_def [symmetric] mk c7_def c5_def err_def c4_def c3_def
    using fl1 by simp
  have ok: "wr_ok (wr c3) (wr_calls (wr c3)) = wr_ok (wr c) (wr_calls (wr c))"
    by (simp add: c3_def do_addChan_fields do_make_fields c1_def Header_Set_def)
  have t5: "tr c5 = tr c @ [EvMake ch, EvAddChan ch,
                            EvWrite pageHead (wr_ok (wr c) (wr_calls (wr c))), EvSendHistory err]"
    by (simp add: c5_def err_def do_sendHistory_fields c4_def do_write_fields ok)
       (simp add: c3_def do_addChan_fields do_make_fields c1_def ch_def)
  have r5: "chans (app c5) = finsert ch (chans (app c))"
    by (simp add: c5_def do_sendHistory_fields c4_def do_write_fields c3_def do_addChan_fields
        do_make_fields c1_def)
  show ?thesis
  proof (cases err)
    case True
    with g have "fst (getHandler fuel r c) = Returned" and "snd (getHandler fuel r c) = deferred ch c5"
      by simp_all
    with True t5 r5 have "list_all io_event []
      \<and> (err \<longrightarrow> fst (getHandler fuel r c) = Returned)
      \<and> tr (snd (getHandler fuel r c)) =
         tr c @ [EvMake ch, EvAddChan ch, EvWrite pageHead (wr_ok (wr c) (wr_calls (wr c))), EvSendHistory err]
         @ (if err then []
            else [EvFlush, EvSendCount (count_fragment (fcard (finsert ch (chans (app c)))))] @ [])
         @ (if fst (getHandler fuel r c) = Returned
            then [EvRemoveChan ch, EvSendCount (count_fragment (fcard (finsert ch (chans (app c)) |-| {|ch|})))]
            else [])"
      by (simp add: deferred_fields)
    then show ?thesis
      unfolding ch_def by blast
  next
    case False
    have t7: "tr c7 = tr c5 @ [EvFlush, EvSendCount (count_fragment (fcard (finsert ch (chans (app c)))))]"
      and r7: "chans (app c7) = finsert ch (chans (app c))"
      by (simp_all add: c7_def do_sendCount_fields do_flush_fields r5)
    from live_loop_trace [of fuel ch c7] obtain io where io: "list_all io_event io"
      "tr (snd (live_loop fuel ch c7)) = tr c7 @ io"
      "chans (app (snd (live_loop fuel ch c7))) = chans (app c7)"
      by blast
    obtain out c8 where l: "live_loop fuel ch c7 = (out, c8)"
      by (cases "live_loop fuel ch c7")
    from l g False have res: "getHandler fuel r c = (out, if out = Returned then deferred ch c8 else c8)"
      by (cases out) simp_all
    from l io have c8: "tr c8 = tr c7 @ io" "chans (app c8) = chans (app c7)"
      by simp_all
    from False res c8 t7 r7 t5 io(1) have "list_all io_event io
      \<and> (err \<longrightarrow> fst (getHandler fuel r c) = Returned)
      \<and> tr (snd (getHandler fuel r c)) =
         tr c @ [EvMake ch, EvAddChan ch, EvWrite pageHead (wr_ok (wr c) (wr_calls (wr c))), EvSendHistory err]
         @ (if err then []
            else [EvFlush, EvSendCount (count_fragment (fcard (finsert ch (chans (app c)))))] @ io)
         @ (if fst (getHandler fuel r c) = Returned
            then [EvRemoveChan ch, EvSendCount (count_fragment (fcard (finsert ch (chans (app c)) |-| {|ch|})))]
            else [])"
      by (simp add: deferred_fields)
    then show ?thesis
      unfolding ch_def by blast
  qed
qed

lemma io_event_not_join: "list_all io_event io \<Longrightarrow> EvAddChan ch \<notin> set io"
  by (auto simp: list_all_iff)






text \<open>
  C3, as the code has it. On a writer that can flush, the handler creates the queue and
  joins it to the registry at once; only then does it write the preamble and replay the
  history; after a successful replay it flushes and triggers the count rebroadcast. No
  second join follows. On a writer that cannot flush it makes no call at all.
\<close>

theorem join_precedes_replay:
  "if is_flusher (wr c)
   then (\<exists>err rest.
           tr (snd (getHandler fuel r c)) =
             tr c @ [EvMake (nxt (app c)), EvAddChan (nxt (app c)),
                     EvWrite pageHead (wr_ok (wr c) (wr_calls (wr c))), EvSendHistory err] @ rest
           \<and> (\<not> err \<longrightarrow>
                (\<exists>rest'. rest =
                   [EvFlush, EvSendCount (count_fragment (fcard (finsert (nxt (app c)) (chans (app c)))))]
                   @ rest'))
           \<and> (\<forall>ch. EvAddChan ch \<notin> set rest))
   else tr (snd (getHandler fuel r c)) = tr c \<and> app (snd (getHandler fuel r c)) = app c"
proof (cases "is_flusher (wr c)")
  case False
  then show ?thesis
    by (simp add: getHandler_no_flusher)
next
  case True
  from getHandler_trace [OF True, of fuel r] obtain err io where io: "list_all io_event io"
    and t: "tr (snd (getHandler fuel r c)) =
         tr c @ [EvMake (nxt (app c)), EvAddChan (nxt (app c)),
                 EvWrite pageHead (wr_ok (wr c) (wr_calls (wr c))), EvSendHistory err]
         @ (if err then []
            else [EvFlush, EvSendCount (count_fragment (fcard (finsert (nxt (app c)) (chans (app c)))))] @ io)
         @ (if fst (getHandler fuel r c) = Returned
            then [EvRemoveChan (nxt (app c)),
                  EvSendCount (count_fragment (fcard (finsert (nxt (app c)) (chans (app c)) |-| {|nxt (app c)|})))]
            else [])"
    by blast
  define rest where "rest =
     (if err then []
      else [EvFlush, EvSendCount (count_fragment (fcard (finsert (nxt (app c)) (chans (app c)))))] @ io)
     @ (if fst (getHandler fuel r c) = Returned
        then [EvRemoveChan (nxt (app c)),
              EvSendCount (count_fragment (fcard (finsert (nxt (app c)) (chans (app c)) |-| {|nxt (app c)|})))]
        else [])"
  have "tr (snd (getHandler fuel r c)) =
          tr c @ [EvMake (nxt (app c)), EvAddChan (nxt (app c)),
                  EvWrite pageHead (wr_ok (wr c) (wr_calls (wr c))), EvSendHistory err] @ rest"
    unfolding rest_def using t by simp
  moreover have "\<not> err \<longrightarrow>
      (\<exists>rest'. rest =
         [EvFlush, EvSendCount (count_fragment (fcard (finsert (nxt (app c)) (chans (app c)))))] @ rest')"
    unfolding rest_def by simp
  moreover have "\<forall>ch. EvAddChan ch \<notin> set rest"
    unfolding rest_def using io_event_not_join [OF io] by simp
  ultimately show ?thesis
    using True by auto
qed

theorem join_precedes_replay_witness:
  "is_flusher (wr first_visit)
   \<and> (\<exists>err rest. tr (snd (getHandler 1 get_request first_visit)) =
         [EvMake 0, EvAddChan 0, EvWrite pageHead True, EvSendHistory err] @ rest)"
proof -
  have f: "is_flusher (wr first_visit)"
    by (simp add: first_visit_def fresh_writer_def)
  have v: "nxt (app first_visit) = 0" "tr first_visit = []"
    "wr_ok (wr first_visit) (wr_calls (wr first_visit)) = True"
    by (simp_all add: first_visit_def fresh_writer_def one_entry_def NewApp_def)
  from join_precedes_replay [of first_visit 1 get_request] f show ?thesis
    unfolding v by auto
qed

text \<open>
  A first visit to a chat with one stored update, with one turn of the live loop: the
  queue is joined to the registry before anything is written.
\<close>

theorem join_after_replay_counterexample:
  "tr (snd (getHandler 1 get_request first_visit)) =
     [EvMake 0, EvAddChan 0, EvWrite pageHead True, EvSendHistory False, EvFlush,
      EvSendCount (count_fragment 1), EvWrite (count_fragment 1) True, EvFlush]
   \<and> \<not> joins_after_replay False (tr (snd (getHandler 1 get_request first_visit)))"
proof -
  have "tr (snd (getHandler 1 get_request first_visit)) =
     [EvMake 0, EvAddChan 0, EvWrite pageHead True, EvSendHistory False, EvFlush,
      EvSendCount (count_fragment 1), EvWrite (count_fragment 1) True, EvFlush]"
    by code_simp
  then show ?thesis
    by simp
qed




subsection \<open>The registry stays well-formed\<close>

lemma registry_ok_NewApp: "registry_ok NewApp"
  by (simp add: registry_ok_def NewApp_def)

lemma registry_ok_cap: "registry_ok a \<Longrightarrow> ch |\<in>| chans a \<Longrightarrow> cap (heap a ch) = bufferSize"
  by (simp add: registry_ok_def)

lemma cap_range_send [simp]: "cap (heap (range_send ks d a) ch) = cap (heap a ch)"
  by (induction ks arbitrary: a) (simp_all add: try_send_def offer_def)

lemma registry_ok_range_send: "registry_ok a \<Longrightarrow> registry_ok (range_send ks d a)"
  by (simp add: registry_ok_def)

lemma registry_ok_append_update: "registry_ok a \<Longrightarrow> registry_ok (append_update u a)"
  by (simp add: registry_ok_def)

lemma registry_ok_send: "registry_ok a \<Longrightarrow> registry_ok (send u a)"
  by (simp add: send_def Let_def registry_ok_range_send registry_ok_append_update)

lemma registry_ok_sendCount: "registry_ok a \<Longrightarrow> registry_ok (sendCount a)"
  by (simp add: sendCount_def Let_def registry_ok_range_send)

lemma registry_ok_removeChan: "registry_ok a \<Longrightarrow> registry_ok (removeChan ch a)"
  by (simp add: registry_ok_def removeChan_def)

lemma registry_ok_join:
  "registry_ok a \<Longrightarrow> registry_ok (addChan (fst (make_chan bufferSize a)) (snd (make_chan bufferSize a)))"
  by (auto simp: registry_ok_def addChan_def make_chan_def less_Suc_eq)

lemma registry_ok_deferred: "registry_ok (app c) \<Longrightarrow> registry_ok (app (deferred ch c))"
  by (simp add: deferred_def do_sendCount_def do_removeChan_def registry_ok_sendCount registry_ok_removeChan)

lemma registry_ok_recv: "registry_ok (app c) \<Longrightarrow> registry_ok (app (recv ch c))"
  by (simp add: registry_ok_def recv_fields recv_def)

lemma registry_ok_live_loop:
  "registry_ok (app c) \<Longrightarrow> registry_ok (app (snd (live_loop n ch c)))"
proof (induction n arbitrary: c)
  case 0
  then show ?case by simp
next
  case (Suc n)
  define c0 where "c0 = (case buf (heap (app c) ch) of [] \<Rightarrow> c | _ # _ \<Rightarrow> recv ch c)"
  define d where "d = (case buf (heap (app c) ch) of [] \<Rightarrow> '' '' | msg # _ \<Rightarrow> msg)"
  have step: "live_loop (Suc n) ch c =
                (if snd (do_write d c0) then (Returned, fst (do_write d c0))
                 else live_loop n ch (do_flush (fst (do_write d c0))))"
    by (simp add: c0_def d_def split_def split: list.splits)
  from Suc.prems have "registry_ok (app c0)"
    by (simp add: c0_def registry_ok_recv split: list.splits)
  then have w: "registry_ok (app (fst (do_write d c0)))"
    by (simp add: do_write_fields)
  then have "registry_ok (app (do_flush (fst (do_write d c0))))"
    by (simp add: do_flush_fields)
  then have "registry_ok (app (snd (live_loop n ch (do_flush (fst (do_write d c0))))))"
    by (rule Suc.IH)
  with w show ?case
    unfolding step by simp
qed

lemma registry_ok_getHandler:
  assumes "registry_ok (app c)"
  shows "registry_ok (app (snd (getHandler fuel r c)))"
proof (cases "is_flusher (wr c)")
  case False
  with assms show ?thesis
    by (simp add: getHandler_no_flusher)
next
  case True
  define c1 where "c1 = c\<lparr>wr := Header_Set ''Content-Type'' ''text/html; charset=utf-8'' (wr c)\<rparr>"
  define ch where "ch = fst (do_make bufferSize c1)"
  define c5 where "c5 = fst (do_sendHistory (fst (do_write pageHead (do_addChan ch (snd (do_make bufferSize c1))))))"
  define err where "err = snd (do_sendHistory (fst (do_write pageHead (do_addChan ch (snd (do_make bufferSize c1))))))"
  define c7 where "c7 = do_sendCount (do_flush c5)"
  have fl1: "is_flusher (wr c1)"
    using True by (simp add: c1_def Header_Set_def)
  have g: "getHandler fuel r c =
             (if err then (Returned, deferred ch c5)
              else (case live_loop fuel ch c7 of
                      (Running, c8) \<Rightarrow> (Running, c8)
                    | (Returned, c8) \<Rightarrow> (Returned, deferred ch c8)))"
    unfolding getHandler_def Let_def split_def c1_def [symmetric] ch_def [symmetric] c7_def c5_def err_def
    using fl1 by simp
  have "app (do_addChan ch (snd (do_make bufferSize c1)))
          = addChan (fst (make_chan bufferSize (app c))) (snd (make_chan bufferSize (app c)))"
    by (simp add: ch_def do_addChan_def do_make_def c1_def split_def Let_def)
  with assms have "registry_ok (app (do_addChan ch (snd (do_make bufferSize c1))))"
    by (simp add: registry_ok_join)
  then have r5: "registry_ok (app c5)"
    by (simp add: c5_def do_sendHistory_fields do_write_fields)
  then have "registry_ok (app c7)"
    by (simp add: c7_def do_sendCount_def do_flush_fields registry_ok_sendCount)
  then have l: "registry_ok (app (snd (live_loop fuel ch c7)))"
    by (rule registry_ok_live_loop)
  show ?thesis
  proof (cases err)
    case True
    with g r5 show ?thesis
      by (simp add: registry_ok_deferred)
  next
    case False
    obtain out c8 where o: "live_loop fuel ch c7 = (out, c8)"
      by (cases "live_loop fuel ch c7")
    with l have "registry_ok (app c8)"
      by simp
    with False g o show ?thesis
      by (cases out) (simp_all add: registry_ok_deferred)
  qed
qed

lemma registry_ok_postHandler:
  "registry_ok (app c) \<Longrightarrow> registry_ok (app (postHandler now r c))"
  by (simp add: postHandler_def Let_def registry_ok_send)

lemma registry_ok_handler:
  "registry_ok (app c) \<Longrightarrow> registry_ok (app (snd (handler fuel now r c)))"
  by (simp add: handler_def registry_ok_getHandler registry_ok_postHandler)

end
